theory Spec2Isabelle
  imports Complex_Main
begin

section \<open>The audio context as a log of calls\<close>

text \<open>
  The class \<open>SoundEngine\<close> of \<open>src/script.js\<close> drives a Web Audio context. The model
  records every call the engine makes on the context, in order, as a list of \<open>audio_op\<close>.
  Audio nodes and buffers are numbered in the order of their creation; number 0 is
  \<open>ctx.destination\<close>. JavaScript numbers that hold seconds, hertz or gain levels are
  rationals here (\<open>0.01\<close> is \<open>1/100\<close>); \<open>Date.now()\<close> is an integer of milliseconds.
\<close>

type_synonym node = nat

datatype wave = Sine | Square | Sawtooth | Triangle

datatype filter_type = Lowpass

datatype param = Gain | Frequency

datatype automation =
    SetValueAtTime rat rat
  | LinearRampToValueAtTime rat rat
  | ExponentialRampToValueAtTime rat rat
  | SetTargetAtTime rat rat rat

datatype audio_op =
    CreateGain node
  | CreateOscillator node
  | CreateBiquadFilter node
  | CreateBufferSource node
  | CreateBuffer node nat nat nat
  | SetChannelData node nat "rat list"
  | SetBuffer node node
  | SetOscType node wave
  | SetFilterType node filter_type
  | SetParamValue node param rat
  | Schedule node param automation
  | Connect node node
  | Start node rat
  | Stop node rat

definition destination :: node where
  "destination = 0"

text \<open>
  The fields of the engine (\<open>masterGain\<close>, \<open>musicGain\<close>, \<open>muted\<close>, \<open>isPlaying\<close>,
  \<open>timerIDs\<close>) together with what the host keeps for it: the call log and the next free
  node number of the audio context, its sample rate, the handles of the \<open>setTimeout\<close>
  timers that have neither fired nor been cleared (oldest first), the next timer handle,
  and how many times \<open>Math.random()\<close> has been called.
\<close>

record world =
  ops :: "audio_op list"
  nextId :: nat
  sampleRate :: nat
  masterGain :: node
  musicGain :: node
  muted :: bool
  isPlaying :: bool
  timerIDs :: "nat list"
  pending :: "nat list"
  nextTimer :: nat
  rngCalls :: nat

text \<open>What a callback reads from its surroundings: \<open>ctx.currentTime\<close> and \<open>Date.now()\<close>.\<close>

record env =
  currentTime :: rat
  dateNow :: int

text \<open>
  \<open>Math.random()\<close> returns a number in the interval from 0 (included) to 1 (excluded).
  The source of randomness is a sequence \<open>rnd\<close>; the i-th call returns the fractional part
  of \<open>rnd i\<close>, which is \<open>rnd i\<close> itself when that lies in the interval.
\<close>

definition math_random :: "(nat \<Rightarrow> rat) \<Rightarrow> world \<Rightarrow> rat \<times> world" where
  "math_random rnd w = (frac (rnd (rngCalls w)), w\<lparr>rngCalls := rngCalls w + 1\<rparr>)"

text \<open>\<open>arr[Math.floor(r * arr.length)]\<close>\<close>

definition pick :: "rat list \<Rightarrow> rat \<Rightarrow> rat" where
  "pick arr r = arr ! nat \<lfloor>r * of_nat (length arr)\<rfloor>"

section \<open>Construction\<close>

definition construct :: "nat \<Rightarrow> world" where
  "construct sr =
     \<lparr>ops = [CreateGain 1, Connect 1 destination, SetParamValue 1 Gain (2/5),
             CreateGain 2, Connect 2 destination, SetParamValue 2 Gain 0],
      nextId = 3, sampleRate = sr,
      masterGain = 1, musicGain = 2,
      muted = False, isPlaying = False, timerIDs = [],
      pending = [], nextTimer = 1, rngCalls = 0\<rparr>"

section \<open>The generator\<close>

text \<open>\<open>playPluck(freq, time, volume = 0.1)\<close>\<close>

definition playPluck :: "rat \<Rightarrow> rat \<Rightarrow> rat \<Rightarrow> world \<Rightarrow> world" where
  "playPluck freq time volume w =
     (if muted w then w
      else
        let osc = nextId w; gain = nextId w + 1 in
        w\<lparr>nextId := nextId w + 2,
          ops := ops w @
            [CreateOscillator osc, CreateGain gain,
             SetOscType osc Sine,
             SetParamValue osc Frequency freq,
             Schedule gain Gain (SetValueAtTime 0 time),
             Schedule gain Gain (LinearRampToValueAtTime volume (time + 1/100)),
             Schedule gain Gain (ExponentialRampToValueAtTime (1/1000) (time + 1/2)),
             Connect osc gain,
             Connect gain (musicGain w),
             Start osc time,
             Stop osc (time + 3/5)]\<rparr>)"

definition playBass :: "rat \<Rightarrow> rat \<Rightarrow> world \<Rightarrow> world" where
  "playBass freq time w =
     (if muted w then w
      else
        let osc = nextId w; gain = nextId w + 1; filter = nextId w + 2 in
        w\<lparr>nextId := nextId w + 3,
          ops := ops w @
            [CreateOscillator osc, CreateGain gain, CreateBiquadFilter filter,
             SetOscType osc Triangle,
             SetParamValue osc Frequency freq,
             SetFilterType filter Lowpass,
             SetParamValue filter Frequency 400,
             Schedule gain Gain (SetValueAtTime 0 time),
             Schedule gain Gain (LinearRampToValueAtTime (3/20) (time + 1/20)),
             Schedule gain Gain (LinearRampToValueAtTime 0 (time + 2/5)),
             Connect osc filter,
             Connect filter gain,
             Connect gain (musicGain w),
             Start osc time,
             Stop osc (time + 1/2)]\<rparr>)"

definition scaleHigh :: "rat list" where
  "scaleHigh = [52325/100, 62225/100, 69846/100, 78399/100, 93233/100]"

definition scaleLow :: "rat list" where
  "scaleLow = [13081/100, 15556/100, 17461/100, 196]"

definition tempo :: int where
  "tempo = 150"

text \<open>
  \<open>this.timerIDs.push(setTimeout(loop, tempo))\<close>: the host hands out a fresh handle and
  keeps the timer until it fires or is cleared; the engine appends the handle to its list.
\<close>

definition scheduleNext :: "world \<Rightarrow> world" where
  "scheduleNext w =
     w\<lparr>pending := pending w @ [nextTimer w],
       nextTimer := nextTimer w + 1,
       timerIDs := timerIDs w @ [nextTimer w]\<rparr>"

text \<open>Layer A of the closure \<open>loop\<close>: the random melody.\<close>

definition melodyLayer :: "(nat \<Rightarrow> rat) \<Rightarrow> rat \<Rightarrow> world \<Rightarrow> world" where
  "melodyLayer rnd now w =
     (let (r, w1) = math_random rnd w in
      if r > 3/10 then
        (let (r', w2) = math_random rnd w1 in playPluck (pick scaleHigh r') now (2/25) w2)
      else w1)"

text \<open>Layer B: the bass, gated by \<open>Math.floor(Date.now() / tempo) % 8 === 0\<close>.\<close>

definition bassLayer :: "(nat \<Rightarrow> rat) \<Rightarrow> env \<Rightarrow> rat \<Rightarrow> world \<Rightarrow> world" where
  "bassLayer rnd e now w =
     (if (dateNow e div tempo) mod 8 = 0 then
        (let (r, w1) = math_random rnd w in playBass (pick scaleLow r) now w1)
      else w)"

definition loop :: "(nat \<Rightarrow> rat) \<Rightarrow> env \<Rightarrow> world \<Rightarrow> world" where
  "loop rnd e w =
     (if \<not> isPlaying w then w
      else
        let now = currentTime e in
        scheduleNext (bassLayer rnd e now (melodyLayer rnd now w)))"

definition startMusic :: "(nat \<Rightarrow> rat) \<Rightarrow> env \<Rightarrow> world \<Rightarrow> world" where
  "startMusic rnd e w =
     (if isPlaying w then w
      else
        let t = currentTime e in
        loop rnd e
          (w\<lparr>isPlaying := True,
             ops := ops w @
               [Schedule (musicGain w) Gain (SetValueAtTime 0 t),
                Schedule (musicGain w) Gain (LinearRampToValueAtTime (1/4) (t + 2))]\<rparr>))"

definition stopMusic :: "env \<Rightarrow> world \<Rightarrow> world" where
  "stopMusic e w =
     w\<lparr>ops := ops w @ [Schedule (musicGain w) Gain (SetTargetAtTime 0 (currentTime e) (1/2))],
       isPlaying := False,
       pending := filter (\<lambda>h. h \<notin> set (timerIDs w)) (pending w),
       timerIDs := []\<rparr>"

section \<open>Mute\<close>

definition toggleMute :: "(nat \<Rightarrow> rat) \<Rightarrow> env \<Rightarrow> world \<Rightarrow> bool \<times> world" where
  "toggleMute rnd e w =
     (let w1 = w\<lparr>muted := \<not> muted w\<rparr>;
          sfxVol = (if muted w1 then 0 else 2/5);
          w2 = w1\<lparr>ops := ops w1 @
                 [Schedule (masterGain w1) Gain (SetTargetAtTime sfxVol (currentTime e) (1/10))]\<rparr>;
          w3 = (if \<not> muted w2 then
                  (let w' = (if \<not> isPlaying w2 then startMusic rnd e w2 else w2) in
                   w'\<lparr>ops := ops w' @
                     [Schedule (musicGain w') Gain (SetTargetAtTime (1/4) (currentTime e) 1)]\<rparr>)
                else
                  w2\<lparr>ops := ops w2 @
                    [Schedule (musicGain w2) Gain (SetTargetAtTime 0 (currentTime e) (1/2))]\<rparr>)
      in (muted w3, w3))"

section \<open>Sound effects\<close>

text \<open>The \<open>for\<close> loop of \<open>createNoiseBuffer\<close>: sample \<open>i\<close> is \<open>Math.random() * 2 - 1\<close>.\<close>

primrec noiseData :: "(nat \<Rightarrow> rat) \<Rightarrow> nat \<Rightarrow> nat \<Rightarrow> rat list" where
  "noiseData rnd pos 0 = []"
| "noiseData rnd pos (Suc i) = noiseData rnd pos i @ [frac (rnd (pos + i)) * 2 - 1]"

definition createNoiseBuffer :: "(nat \<Rightarrow> rat) \<Rightarrow> world \<Rightarrow> node \<times> world" where
  "createNoiseBuffer rnd w =
     (let bufferSize = sampleRate w * 2; buffer = nextId w in
      (buffer,
       w\<lparr>nextId := nextId w + 1,
         rngCalls := rngCalls w + bufferSize,
         ops := ops w @
           [CreateBuffer buffer 1 bufferSize (sampleRate w),
            SetChannelData buffer 0 (noiseData rnd (rngCalls w) bufferSize)]\<rparr>))"

definition playSnap :: "(nat \<Rightarrow> rat) \<Rightarrow> env \<Rightarrow> world \<Rightarrow> world" where
  "playSnap rnd e w =
     (if muted w then w
      else
        let t = currentTime e;
            noise = nextId w;
            w1 = w\<lparr>nextId := nextId w + 1, ops := ops w @ [CreateBufferSource noise]\<rparr>;
            (buffer, w2) = createNoiseBuffer rnd w1;
            noiseFilter = nextId w2; noiseGain = nextId w2 + 1;
            osc = nextId w2 + 2; clickGain = nextId w2 + 3
        in
        w2\<lparr>nextId := nextId w2 + 4,
           ops := ops w2 @
             [SetBuffer noise buffer,
              CreateBiquadFilter noiseFilter,
              SetFilterType noiseFilter Lowpass,
              Schedule noiseFilter Frequency (SetValueAtTime 800 t),
              CreateGain noiseGain,
              Schedule noiseGain Gain (SetValueAtTime (1/2) t),
              Schedule noiseGain Gain (ExponentialRampToValueAtTime (1/100) (t + 3/20)),
              Connect noise noiseFilter,
              Connect noiseFilter noiseGain,
              Connect noiseGain (masterGain w2),
              Start noise t,
              CreateOscillator osc, CreateGain clickGain,
              SetOscType osc Triangle,
              Schedule osc Frequency (SetValueAtTime 150 t),
              Schedule osc Frequency (ExponentialRampToValueAtTime 40 (t + 1/10)),
              Schedule clickGain Gain (SetValueAtTime (4/5) (t + 1/20)),
              Schedule clickGain Gain (ExponentialRampToValueAtTime (1/100) (t + 3/20)),
              Connect osc clickGain,
              Connect clickGain (masterGain w2),
              Start osc t,
              Stop osc (t + 1/5)]\<rparr>)"

text \<open>One pass of the \<open>for\<close> loop of \<open>playScrambleNoise\<close>, for the index \<open>i\<close>.\<close>

definition scrambleBlip :: "(nat \<Rightarrow> rat) \<Rightarrow> rat \<Rightarrow> nat \<Rightarrow> world \<Rightarrow> world" where
  "scrambleBlip rnd t i w =
     (let osc = nextId w; gain = nextId w + 1;
          (r, w1) = math_random rnd w;
          freq = 800 + r * 1000;
          start = t + of_nat i * (1/25)
      in
      w1\<lparr>nextId := nextId w1 + 2,
         ops := ops w1 @
           [CreateOscillator osc, CreateGain gain,
            SetOscType osc (if i mod 2 = 0 then Square else Sawtooth),
            Schedule osc Frequency (SetValueAtTime freq start),
            Schedule gain Gain (SetValueAtTime (1/20) start),
            Schedule gain Gain (ExponentialRampToValueAtTime (1/1000) (start + 3/100)),
            Connect osc gain,
            Connect gain (masterGain w1),
            Start osc start,
            Stop osc (start + 1/20)]\<rparr>)"

definition playScrambleNoise :: "(nat \<Rightarrow> rat) \<Rightarrow> env \<Rightarrow> world \<Rightarrow> world" where
  "playScrambleNoise rnd e w =
     (if muted w then w
      else fold (scrambleBlip rnd (currentTime e)) [0..<8] w)"

definition playServo :: "env \<Rightarrow> world \<Rightarrow> world" where
  "playServo e w =
     (if muted w then w
      else
        let t = currentTime e;
            osc = nextId w; gain = nextId w + 1; filter = nextId w + 2 in
        w\<lparr>nextId := nextId w + 3,
          ops := ops w @
            [CreateOscillator osc, CreateGain gain,
             SetOscType osc Sawtooth,
             Schedule osc Frequency (SetValueAtTime 100 t),
             Schedule osc Frequency (ExponentialRampToValueAtTime 800 (t + 3/5)),
             CreateBiquadFilter filter,
             SetFilterType filter Lowpass,
             Schedule filter Frequency (SetValueAtTime 400 t),
             Schedule filter Frequency (LinearRampToValueAtTime 2000 (t + 3/5)),
             Schedule gain Gain (SetValueAtTime 0 t),
             Schedule gain Gain (LinearRampToValueAtTime (1/5) (t + 1/10)),
             Schedule gain Gain (LinearRampToValueAtTime 0 (t + 3/5)),
             Connect osc filter,
             Connect filter gain,
             Connect gain (masterGain w),
             Start osc t,
             Stop osc (t + 3/5)]\<rparr>)"

definition playHover :: "env \<Rightarrow> world \<Rightarrow> world" where
  "playHover e w =
     (if muted w then w
      else
        let t = currentTime e;
            osc = nextId w; gain = nextId w + 1 in
        w\<lparr>nextId := nextId w + 2,
          ops := ops w @
            [CreateOscillator osc, CreateGain gain,
             SetOscType osc Sine,
             Schedule osc Frequency (SetValueAtTime 1200 t),
             Schedule gain Gain (SetValueAtTime (1/20) t),
             Schedule gain Gain (ExponentialRampToValueAtTime (1/1000) (t + 1/20)),
             Connect osc gain,
             Connect gain (masterGain w),
             Start osc t,
             Stop osc (t + 1/20)]\<rparr>)"

text \<open>The body of \<open>notes.forEach((freq, i) => ...)\<close> in \<open>playSuccess\<close>.\<close>

definition successVoice :: "rat \<Rightarrow> rat \<times> nat \<Rightarrow> world \<Rightarrow> world" where
  "successVoice t fi w =
     (let freq = fst fi; i = snd fi;
          osc = nextId w; gain = nextId w + 1 in
      w\<lparr>nextId := nextId w + 2,
        ops := ops w @
          [CreateOscillator osc, CreateGain gain,
           SetOscType osc Triangle,
           SetParamValue osc Frequency freq,
           Schedule gain Gain (SetValueAtTime 0 t),
           Schedule gain Gain (LinearRampToValueAtTime (3/20) (t + 1/10 + of_nat i * (1/20))),
           Schedule gain Gain (ExponentialRampToValueAtTime (1/1000) (t + 2)),
           Connect osc gain,
           Connect gain (masterGain w),
           Start osc t,
           Stop osc (t + 2)]\<rparr>)"

definition playSuccess :: "env \<Rightarrow> world \<Rightarrow> world" where
  "playSuccess e w =
     (if muted w then w
      else
        let notes = [440, 554, 659, 830] in
        fold (successVoice (currentTime e)) (zip notes [0..<length notes]) w)"

section \<open>The host: calls from the page and timers that fire\<close>

text \<open>
  The engine runs on one event loop. An event is either a call of one of its methods by
  the page or the firing of the oldest timer that is still set; every event comes with
  the clock readings of its callback. A timer that has fired or was cleared never fires
  again, and with no timer set nothing fires. The callback of every timer is \<open>loop\<close>.
\<close>

datatype call =
    CallStartMusic
  | CallStopMusic
  | CallToggleMute
  | CallPlayPluck rat rat "rat option"
  | CallPlayBass rat rat
  | CallPlaySnap
  | CallPlayScrambleNoise
  | CallPlayServo
  | CallPlayHover
  | CallPlaySuccess
  | TimerFires

fun step :: "(nat \<Rightarrow> rat) \<Rightarrow> env \<Rightarrow> call \<Rightarrow> world \<Rightarrow> world" where
  "step rnd e CallStartMusic w = startMusic rnd e w"
| "step rnd e CallStopMusic w = stopMusic e w"
| "step rnd e CallToggleMute w = snd (toggleMute rnd e w)"
| "step rnd e (CallPlayPluck freq time volume) w =
     playPluck freq time (case volume of None \<Rightarrow> 1/10 | Some v \<Rightarrow> v) w"
| "step rnd e (CallPlayBass freq time) w = playBass freq time w"
| "step rnd e CallPlaySnap w = playSnap rnd e w"
| "step rnd e CallPlayScrambleNoise w = playScrambleNoise rnd e w"
| "step rnd e CallPlayServo w = playServo e w"
| "step rnd e CallPlayHover w = playHover e w"
| "step rnd e CallPlaySuccess w = playSuccess e w"
| "step rnd e TimerFires w =
     (case pending w of
        [] \<Rightarrow> w
      | h # rest \<Rightarrow> loop rnd e (w\<lparr>pending := rest\<rparr>))"

fun exec :: "(nat \<Rightarrow> rat) \<Rightarrow> (env \<times> call) list \<Rightarrow> world \<Rightarrow> world" where
  "exec rnd [] w = w"
| "exec rnd (ec # evs) w = exec rnd evs (step rnd (fst ec) (snd ec) w)"

text \<open>A constant source of randomness and a clock reading, for concrete scenarios.\<close>

definition steady :: "rat \<Rightarrow> nat \<Rightarrow> rat" where
  "steady r i = r"

definition at_ms :: "int \<Rightarrow> env" where
  "at_ms ms = \<lparr>currentTime = of_int ms / 1000, dateNow = ms\<rparr>"

section \<open>Observing the call log\<close>

text \<open>The nodes a node is connected to, in the order of the \<open>connect\<close> calls.\<close>

fun targetOf :: "node \<Rightarrow> audio_op \<Rightarrow> node list" where
  "targetOf n (Connect a b) = (if a = n then [b] else [])"
| "targetOf n _ = []"

definition targets :: "audio_op list \<Rightarrow> node \<Rightarrow> node list" where
  "targets os n = concat (map (targetOf n) os)"

text \<open>
  \<open>path os avoid k n m\<close>: the signal of node \<open>n\<close> arrives at node \<open>m\<close> over at most \<open>k\<close>
  connections, through nodes that are not in \<open>avoid\<close>.
\<close>

fun path :: "audio_op list \<Rightarrow> node list \<Rightarrow> nat \<Rightarrow> node \<Rightarrow> node \<Rightarrow> bool" where
  "path os avoid 0 n m = (n \<notin> set avoid \<and> n = m)"
| "path os avoid (Suc k) n m =
     (n \<notin> set avoid \<and> (n = m \<or> list_ex (\<lambda>x. path os avoid k x m) (targets os n)))"

text \<open>The sources that were started, in the order of the \<open>start\<close> calls.\<close>

fun startedBy :: "audio_op \<Rightarrow> node list" where
  "startedBy (Start n t) = [n]"
| "startedBy _ = []"

definition started :: "audio_op list \<Rightarrow> node list" where
  "started os = concat (map startedBy os)"

text \<open>
  A note of the sequencer is a started source that feeds the music bus: an oscillator,
  its gain and at most one filter between them. A pluck is such a note with a sine
  oscillator, a bass pulse one with a triangle oscillator.
\<close>

definition musicNotes :: "world \<Rightarrow> node list" where
  "musicNotes w = filter (\<lambda>n. path (ops w) [] 3 n (musicGain w)) (started (ops w))"

definition voices :: "wave \<Rightarrow> world \<Rightarrow> node list" where
  "voices k w = filter (\<lambda>n. SetOscType n k \<in> set (ops w)) (musicNotes w)"

definition plucks :: "world \<Rightarrow> node list" where
  "plucks w = voices Sine w"

definition basses :: "world \<Rightarrow> node list" where
  "basses w = voices Triangle w"

text \<open>The nodes and buffers a call names; the first is the one the call is made on.\<close>

fun opNodes :: "audio_op \<Rightarrow> node list" where
  "opNodes (CreateGain n) = [n]"
| "opNodes (CreateOscillator n) = [n]"
| "opNodes (CreateBiquadFilter n) = [n]"
| "opNodes (CreateBufferSource n) = [n]"
| "opNodes (CreateBuffer n c l r) = [n]"
| "opNodes (SetChannelData n c d) = [n]"
| "opNodes (SetBuffer n b) = [n, b]"
| "opNodes (SetOscType n k) = [n]"
| "opNodes (SetFilterType n k) = [n]"
| "opNodes (SetParamValue n p v) = [n]"
| "opNodes (Schedule n p a) = [n]"
| "opNodes (Connect a b) = [a, b]"
| "opNodes (Start n t) = [n]"
| "opNodes (Stop n t) = [n]"

text \<open>Every node named in the log has been created: its number is below the next free one.\<close>

definition idsBelow :: "nat \<Rightarrow> audio_op list \<Rightarrow> bool" where
  "idsBelow N os = list_all (\<lambda>opn. list_all (\<lambda>n. n < N) (opNodes opn)) os"

definition idsFresh :: "world \<Rightarrow> bool" where
  "idsFresh w = (idsBelow (nextId w) (ops w) \<and> musicGain w < nextId w \<and> masterGain w < nextId w)"

text \<open>
  A block of calls wires only nodes created from number \<open>N\<close> on: the calls that connect a
  node, set its waveform or start it are made on nodes numbered \<open>N\<close> or more.
\<close>

fun wiresFrom :: "nat \<Rightarrow> audio_op \<Rightarrow> bool" where
  "wiresFrom N (Connect a b) = (N \<le> a)"
| "wiresFrom N (SetOscType n k) = (N \<le> n)"
| "wiresFrom N (Start n t) = (N \<le> n)"
| "wiresFrom N _ = True"

text \<open>
  \<open>extends w w'\<close>: the world \<open>w'\<close> has the log of \<open>w\<close> followed by a block that wires only
  nodes created after \<open>w\<close>, and the same two buses.
\<close>

definition extends :: "world \<Rightarrow> world \<Rightarrow> bool" where
  "extends w w' =
     (nextId w \<le> nextId w' \<and> musicGain w' = musicGain w \<and> masterGain w' = masterGain w \<and>
      take (length (ops w)) (ops w') = ops w \<and>
      list_all (wiresFrom (nextId w)) (drop (length (ops w)) (ops w')) \<and>
      idsBelow (nextId w') (drop (length (ops w)) (ops w')))"

text \<open>
  What holds of the timers in every world the engine can be in: every timer that is still
  set is in \<open>timerIDs\<close>; while the sequencer plays exactly one timer is set; while it
  does not, \<open>timerIDs\<close> is empty.
\<close>

definition timersOk :: "world \<Rightarrow> bool" where
  "timersOk w =
     (set (pending w) \<subseteq> set (timerIDs w) \<and>
      (if isPlaying w then length (pending w) = 1 else timerIDs w = []))"

text \<open>The routing of the two buses as the constructor leaves it.\<close>

definition busesOk :: "world \<Rightarrow> bool" where
  "busesOk w =
     (idsFresh w \<and> musicGain w \<noteq> masterGain w \<and>
      musicGain w \<noteq> destination \<and> masterGain w \<noteq> destination \<and>
      targets (ops w) (musicGain w) = [destination] \<and>
      targets (ops w) (masterGain w) = [destination] \<and>
      targets (ops w) destination = [])"

definition isTimerFires :: "env \<times> call \<Rightarrow> bool" where
  "isTimerFires ec = (snd ec = TimerFires)"

definition isStop :: "env \<times> call \<Rightarrow> bool" where
  "isStop ec = (snd ec = CallStopMusic)"

section \<open>The curve of a gain ramp\<close>

text \<open>
  Modelled from the spec: the value over time of a bus gain after \<open>setTargetAtTime\<close>, a
  primitive of the Web Audio platform that \<open>src/script.js\<close> calls and does not define.
  The spec (4.1) describes it as an exponential-decay-style approach from the current level
  to the target level; \<open>targetCurve v0 target t0 tau t\<close> is the level at time \<open>t\<close> when
  the level was \<open>v0\<close> at the start time \<open>t0\<close> of the ramp, with time constant \<open>tau\<close>.
\<close>

definition targetCurve :: "real \<Rightarrow> rat \<Rightarrow> rat \<Rightarrow> rat \<Rightarrow> real \<Rightarrow> real" where
  "targetCurve v0 target t0 tau t =
     (if t < of_rat t0 then v0
      else of_rat target + (v0 - of_rat target) * exp (- (t - of_rat t0) / of_rat tau))"

section \<open>Properties\<close>

subsection \<open>Random draws and array reads stay in range\<close>

text \<open>
  Every draw lies in the interval from 0 to 1, so \<open>Math.floor(r * arr.length)\<close> is an
  index of the array and the note that is read is one of the scale.
\<close>

lemma math_random_unit: "0 \<le> fst (math_random rnd w) \<and> fst (math_random rnd w) < 1"
  by (simp add: math_random_def frac_lt_1)

lemma pick_in_range:
  assumes "0 \<le> r" "r < 1" "arr \<noteq> []"
  shows "nat \<lfloor>r * of_nat (length arr)\<rfloor> < length arr"
proof -
  have n: "0 < length arr" using assms(3) by simp
  have "r * of_nat (length arr) < of_nat (length arr)"
    using assms(2) n by simp
  then have "\<lfloor>r * of_nat (length arr)\<rfloor> < int (length arr)"
    by (simp add: floor_less_iff)
  then show ?thesis using n by linarith
qed

lemma pick_member: "0 \<le> r \<Longrightarrow> r < 1 \<Longrightarrow> arr \<noteq> [] \<Longrightarrow> pick arr r \<in> set arr"
  unfolding pick_def by (rule nth_mem) (rule pick_in_range)

lemma pick_scale:
  "pick scaleHigh (fst (math_random rnd w)) \<in> set scaleHigh"
  "pick scaleLow (fst (math_random rnd w)) \<in> set scaleLow"
proof -
  have u: "0 \<le> fst (math_random rnd w)" "fst (math_random rnd w) < 1"
    using math_random_unit [of rnd w] by simp_all
  have "scaleHigh \<noteq> []" by (simp add: scaleHigh_def)
  with u show "pick scaleHigh (fst (math_random rnd w)) \<in> set scaleHigh" by (rule pick_member)
  have "scaleLow \<noteq> []" by (simp add: scaleLow_def)
  with u show "pick scaleLow (fst (math_random rnd w)) \<in> set scaleLow" by (rule pick_member)
qed

subsection \<open>Fields that the synthesis leaves alone\<close>

lemma playPluck_fields [simp]:
  "muted (playPluck f t v w) = muted w"
  "isPlaying (playPluck f t v w) = isPlaying w"
  "timerIDs (playPluck f t v w) = timerIDs w"
  "pending (playPluck f t v w) = pending w"
  "nextTimer (playPluck f t v w) = nextTimer w"
  "musicGain (playPluck f t v w) = musicGain w"
  "masterGain (playPluck f t v w) = masterGain w"
  by (simp_all add: playPluck_def Let_def)

lemma playBass_fields [simp]:
  "muted (playBass f t w) = muted w"
  "isPlaying (playBass f t w) = isPlaying w"
  "timerIDs (playBass f t w) = timerIDs w"
  "pending (playBass f t w) = pending w"
  "nextTimer (playBass f t w) = nextTimer w"
  "musicGain (playBass f t w) = musicGain w"
  "masterGain (playBass f t w) = masterGain w"
  by (simp_all add: playBass_def Let_def)

lemma melodyLayer_fields [simp]:
  "muted (melodyLayer rnd t w) = muted w"
  "isPlaying (melodyLayer rnd t w) = isPlaying w"
  "timerIDs (melodyLayer rnd t w) = timerIDs w"
  "pending (melodyLayer rnd t w) = pending w"
  "nextTimer (melodyLayer rnd t w) = nextTimer w"
  "musicGain (melodyLayer rnd t w) = musicGain w"
  "masterGain (melodyLayer rnd t w) = masterGain w"
  by (simp_all add: melodyLayer_def math_random_def Let_def)

lemma bassLayer_fields [simp]:
  "muted (bassLayer rnd e t w) = muted w"
  "isPlaying (bassLayer rnd e t w) = isPlaying w"
  "timerIDs (bassLayer rnd e t w) = timerIDs w"
  "pending (bassLayer rnd e t w) = pending w"
  "nextTimer (bassLayer rnd e t w) = nextTimer w"
  "musicGain (bassLayer rnd e t w) = musicGain w"
  "masterGain (bassLayer rnd e t w) = masterGain w"
  by (simp_all add: bassLayer_def math_random_def Let_def)

lemma loop_playing:
  "isPlaying w \<Longrightarrow> loop rnd e w = scheduleNext (bassLayer rnd e (currentTime e) (melodyLayer rnd (currentTime e) w))"
  by (simp add: loop_def Let_def)

lemma loop_idle: "\<not> isPlaying w \<Longrightarrow> loop rnd e w = w"
  by (simp add: loop_def)

lemma loop_fields [simp]:
  "muted (loop rnd e w) = muted w"
  "isPlaying (loop rnd e w) = isPlaying w"
  "musicGain (loop rnd e w) = musicGain w"
  "masterGain (loop rnd e w) = masterGain w"
  by (simp_all add: loop_def scheduleNext_def Let_def)

lemma startMusic_fields [simp]:
  "muted (startMusic rnd e w) = muted w"
  "isPlaying (startMusic rnd e w)"
  "musicGain (startMusic rnd e w) = musicGain w"
  "masterGain (startMusic rnd e w) = masterGain w"
  by (simp_all add: startMusic_def Let_def)

lemma startMusic_noop: "isPlaying w \<Longrightarrow> startMusic rnd e w = w"
  by (simp add: startMusic_def)

text \<open>
  Claim C4: while the sequencer is already running (\<open>isPlaying\<close>), \<open>startMusic\<close>
  returns the world it was given: no loop is begun, no ramp is issued, no timer is set.
\<close>

theorem startMusic_while_running: "isPlaying w \<Longrightarrow> startMusic rnd e w = w"
  by (simp add: startMusic_def)

theorem startMusic_while_running_witness:
  "isPlaying (startMusic (steady (1/2)) (at_ms 0) (construct 44100)) \<and>
   startMusic (steady (1/2)) (at_ms 150) (startMusic (steady (1/2)) (at_ms 0) (construct 44100))
     = startMusic (steady (1/2)) (at_ms 0) (construct 44100)"
proof -
  have h: "isPlaying (startMusic (steady (1/2)) (at_ms 0) (construct 44100))"
    by simp
  show ?thesis
    using h startMusic_while_running [OF h, of "steady (1/2)" "at_ms 150"] by simp
qed

text \<open>
  Claim C5: while the engine is muted each of the five one-shot triggers returns the
  world it was given: no node or buffer is created, nothing is scheduled, and
  \<open>Math.random()\<close> is not called.
\<close>

theorem muted_suppresses_one_shots:
  "muted w \<Longrightarrow>
     playSnap rnd e w = w \<and> playScrambleNoise rnd e w = w \<and> playServo e w = w \<and>
     playHover e w = w \<and> playSuccess e w = w"
  by (simp add: playSnap_def playScrambleNoise_def playServo_def playHover_def playSuccess_def)

lemma toggleMute_muted: "muted (snd (toggleMute rnd e w)) = (\<not> muted w)"
  by (simp add: toggleMute_def Let_def)

theorem muted_suppresses_one_shots_witness:
  "muted (snd (toggleMute (steady (1/2)) (at_ms 0) (construct 44100))) \<and>
   playSnap (steady (1/2)) (at_ms 10) (snd (toggleMute (steady (1/2)) (at_ms 0) (construct 44100)))
     = snd (toggleMute (steady (1/2)) (at_ms 0) (construct 44100)) \<and>
   playSuccess (at_ms 10) (snd (toggleMute (steady (1/2)) (at_ms 0) (construct 44100)))
     = snd (toggleMute (steady (1/2)) (at_ms 0) (construct 44100))"
proof -
  have h: "muted (snd (toggleMute (steady (1/2)) (at_ms 0) (construct 44100)))"
    by (simp add: toggleMute_muted construct_def)
  show ?thesis
    using h muted_suppresses_one_shots [OF h, of "steady (1/2)" "at_ms 10"] by simp
qed

lemma fold_keeps:
  assumes "\<And>x v. g (f x v) = g v"
  shows "g (fold f xs w) = g w"
  using assms by (induction xs arbitrary: w) simp_all

lemma scrambleBlip_fields [simp]:
  "muted (scrambleBlip rnd t i w) = muted w"
  "isPlaying (scrambleBlip rnd t i w) = isPlaying w"
  "timerIDs (scrambleBlip rnd t i w) = timerIDs w"
  "pending (scrambleBlip rnd t i w) = pending w"
  "nextTimer (scrambleBlip rnd t i w) = nextTimer w"
  "musicGain (scrambleBlip rnd t i w) = musicGain w"
  "masterGain (scrambleBlip rnd t i w) = masterGain w"
  by (simp_all add: scrambleBlip_def math_random_def Let_def)

lemma successVoice_fields [simp]:
  "muted (successVoice t fi w) = muted w"
  "isPlaying (successVoice t fi w) = isPlaying w"
  "timerIDs (successVoice t fi w) = timerIDs w"
  "pending (successVoice t fi w) = pending w"
  "nextTimer (successVoice t fi w) = nextTimer w"
  "musicGain (successVoice t fi w) = musicGain w"
  "masterGain (successVoice t fi w) = masterGain w"
  by (simp_all add: successVoice_def Let_def)

lemma playScrambleNoise_fields [simp]:
  "muted (playScrambleNoise rnd e w) = muted w"
  "isPlaying (playScrambleNoise rnd e w) = isPlaying w"
  "timerIDs (playScrambleNoise rnd e w) = timerIDs w"
  "pending (playScrambleNoise rnd e w) = pending w"
  "nextTimer (playScrambleNoise rnd e w) = nextTimer w"
  "musicGain (playScrambleNoise rnd e w) = musicGain w"
  "masterGain (playScrambleNoise rnd e w) = masterGain w"
  by (simp_all add: playScrambleNoise_def fold_keeps)

lemma playSuccess_fields [simp]:
  "muted (playSuccess e w) = muted w"
  "isPlaying (playSuccess e w) = isPlaying w"
  "timerIDs (playSuccess e w) = timerIDs w"
  "pending (playSuccess e w) = pending w"
  "nextTimer (playSuccess e w) = nextTimer w"
  "musicGain (playSuccess e w) = musicGain w"
  "masterGain (playSuccess e w) = masterGain w"
  by (simp_all add: playSuccess_def Let_def fold_keeps)

lemma playSnap_fields [simp]:
  "muted (playSnap rnd e w) = muted w"
  "isPlaying (playSnap rnd e w) = isPlaying w"
  "timerIDs (playSnap rnd e w) = timerIDs w"
  "pending (playSnap rnd e w) = pending w"
  "nextTimer (playSnap rnd e w) = nextTimer w"
  "musicGain (playSnap rnd e w) = musicGain w"
  "masterGain (playSnap rnd e w) = masterGain w"
  by (simp_all add: playSnap_def createNoiseBuffer_def Let_def)

lemma playServo_fields [simp]:
  "muted (playServo e w) = muted w"
  "isPlaying (playServo e w) = isPlaying w"
  "timerIDs (playServo e w) = timerIDs w"
  "pending (playServo e w) = pending w"
  "nextTimer (playServo e w) = nextTimer w"
  "musicGain (playServo e w) = musicGain w"
  "masterGain (playServo e w) = masterGain w"
  by (simp_all add: playServo_def Let_def)

lemma playHover_fields [simp]:
  "muted (playHover e w) = muted w"
  "isPlaying (playHover e w) = isPlaying w"
  "timerIDs (playHover e w) = timerIDs w"
  "pending (playHover e w) = pending w"
  "nextTimer (playHover e w) = nextTimer w"
  "musicGain (playHover e w) = musicGain w"
  "masterGain (playHover e w) = masterGain w"
  by (simp_all add: playHover_def Let_def)

lemma loop_timers:
  "isPlaying w \<Longrightarrow> pending (loop rnd e w) = pending w @ [nextTimer w]"
  "isPlaying w \<Longrightarrow> timerIDs (loop rnd e w) = timerIDs w @ [nextTimer w]"
  by (simp_all add: loop_playing scheduleNext_def)

lemma startMusic_timers:
  "\<not> isPlaying w \<Longrightarrow> pending (startMusic rnd e w) = pending w @ [nextTimer w]"
  "\<not> isPlaying w \<Longrightarrow> timerIDs (startMusic rnd e w) = timerIDs w @ [nextTimer w]"
  by (simp_all add: startMusic_def Let_def loop_timers)

lemma toggleMute_timers:
  "pending (snd (toggleMute rnd e w)) =
     (if muted w \<and> \<not> isPlaying w then pending w @ [nextTimer w] else pending w)"
  "timerIDs (snd (toggleMute rnd e w)) =
     (if muted w \<and> \<not> isPlaying w then timerIDs w @ [nextTimer w] else timerIDs w)"
  "isPlaying (snd (toggleMute rnd e w)) = (muted w \<or> isPlaying w)"
  by (auto simp add: toggleMute_def Let_def startMusic_timers)

lemma timersOk_construct: "timersOk (construct sr)"
  by (simp add: timersOk_def construct_def)

lemma timersOk_step: "timersOk w \<Longrightarrow> timersOk (step rnd e c w)"
proof (cases c)
  case CallStartMusic
  assume "timersOk w"
  then show ?thesis using CallStartMusic
    by (cases "isPlaying w") (auto simp add: timersOk_def startMusic_timers startMusic_noop)
next
  case CallStopMusic
  assume "timersOk w"
  then show ?thesis using CallStopMusic
    by (auto simp add: timersOk_def stopMusic_def filter_empty_conv)
next
  case CallToggleMute
  assume "timersOk w"
  then show ?thesis using CallToggleMute
    by (auto simp add: timersOk_def toggleMute_timers)
next
  case TimerFires
  assume ok: "timersOk w"
  show ?thesis
  proof (cases "pending w")
    case Nil
    then show ?thesis using ok TimerFires by simp
  next
    case (Cons h rest)
    with ok have playing: "isPlaying w" and rest: "rest = []"
      by (auto simp add: timersOk_def split: if_splits)
    then show ?thesis using ok TimerFires Cons
      by (auto simp add: timersOk_def loop_timers)
  qed
qed (auto simp add: timersOk_def)

lemma timersOk_exec: "timersOk w \<Longrightarrow> timersOk (exec rnd evs w)"
  by (induction evs arbitrary: w) (simp_all add: timersOk_step)

lemma timersOk_reachable: "timersOk (exec rnd evs (construct sr))"
  by (simp add: timersOk_exec timersOk_construct)

lemma stop_clears: "timersOk w \<Longrightarrow> pending (stopMusic e w) = []"
  by (auto simp add: timersOk_def stopMusic_def filter_empty_conv)

lemma fires_without_timers:
  "pending w = [] \<Longrightarrow> list_all isTimerFires evs \<Longrightarrow> exec rnd evs w = w"
  by (induction evs) (auto simp add: isTimerFires_def)

text \<open>
  Claim C1: in every world the engine can reach from its construction, \<open>stopMusic\<close>
  leaves no timer set and the sequencer idle, so whatever timer events the host runs
  afterwards change nothing: no tick runs and no call is added to the log. The calls
  already in the log stay; \<open>stopMusic\<close> adds only the fade of the music bus.
\<close>

theorem stop_ends_ticks:
  "list_all isTimerFires later \<Longrightarrow>
   pending (stopMusic e (exec rnd evs (construct sr))) = [] \<and>
   \<not> isPlaying (stopMusic e (exec rnd evs (construct sr))) \<and>
   exec rnd later (stopMusic e (exec rnd evs (construct sr)))
     = stopMusic e (exec rnd evs (construct sr)) \<and>
   ops (stopMusic e (exec rnd evs (construct sr)))
     = ops (exec rnd evs (construct sr)) @
       [Schedule (musicGain (exec rnd evs (construct sr))) Gain
          (SetTargetAtTime 0 (currentTime e) (1/2))]"
proof -
  assume fires: "list_all isTimerFires later"
  have clear: "pending (stopMusic e (exec rnd evs (construct sr))) = []"
    by (rule stop_clears) (rule timersOk_reachable)
  from clear fires show ?thesis
    by (simp add: fires_without_timers) (simp add: stopMusic_def)
qed

theorem stop_ends_ticks_witness:
  "list_all isTimerFires [(at_ms 150, TimerFires), (at_ms 300, TimerFires)] \<and>
   (pending (stopMusic (at_ms 10) (exec (steady (1/2)) [(at_ms 0, CallStartMusic)] (construct 44100))) = [] \<and>
   \<not> isPlaying (stopMusic (at_ms 10) (exec (steady (1/2)) [(at_ms 0, CallStartMusic)] (construct 44100))) \<and>
   exec (steady (1/2)) [(at_ms 150, TimerFires), (at_ms 300, TimerFires)]
       (stopMusic (at_ms 10) (exec (steady (1/2)) [(at_ms 0, CallStartMusic)] (construct 44100)))
     = stopMusic (at_ms 10) (exec (steady (1/2)) [(at_ms 0, CallStartMusic)] (construct 44100)) \<and>
   ops (stopMusic (at_ms 10) (exec (steady (1/2)) [(at_ms 0, CallStartMusic)] (construct 44100)))
     = ops (exec (steady (1/2)) [(at_ms 0, CallStartMusic)] (construct 44100)) @
       [Schedule (musicGain (exec (steady (1/2)) [(at_ms 0, CallStartMusic)] (construct 44100))) Gain
          (SetTargetAtTime 0 (currentTime (at_ms 10)) (1/2))])"
proof -
  have h: "list_all isTimerFires [(at_ms 150, TimerFires), (at_ms 300, TimerFires)]"
    by (simp add: isTimerFires_def)
  from h stop_ends_ticks [OF h] show ?thesis by (rule conjI)
qed

text \<open>
  Claim C7: \<open>toggleMute\<close> flips \<open>muted\<close> and returns the new value. Entering the
  muted state it ramps the master bus toward 0 with time constant 0.1 (and the music bus
  toward 0). Entering the unmuted state it ramps the music bus toward 0.25 with time
  constant 1.0 (and the master bus toward 0.4), after starting the loop when, and only
  when, the sequencer was not running.
\<close>

theorem toggleMute_contract:
  "fst (toggleMute rnd e w) = (\<not> muted w) \<and>
   snd (toggleMute rnd e w) =
     (if \<not> muted w then
        w\<lparr>muted := True,
          ops := ops w @
            [Schedule (masterGain w) Gain (SetTargetAtTime 0 (currentTime e) (1/10)),
             Schedule (musicGain w) Gain (SetTargetAtTime 0 (currentTime e) (1/2))]\<rparr>
      else if isPlaying w then
        w\<lparr>muted := False,
          ops := ops w @
            [Schedule (masterGain w) Gain (SetTargetAtTime (2/5) (currentTime e) (1/10)),
             Schedule (musicGain w) Gain (SetTargetAtTime (1/4) (currentTime e) 1)]\<rparr>
      else
        (startMusic rnd e
           (w\<lparr>muted := False,
              ops := ops w @
                [Schedule (masterGain w) Gain (SetTargetAtTime (2/5) (currentTime e) (1/10))]\<rparr>))
        \<lparr>ops := ops (startMusic rnd e
           (w\<lparr>muted := False,
              ops := ops w @
                [Schedule (masterGain w) Gain (SetTargetAtTime (2/5) (currentTime e) (1/10))]\<rparr>)) @
             [Schedule (musicGain w) Gain (SetTargetAtTime (1/4) (currentTime e) 1)]\<rparr>) \<and>
   isPlaying (snd (toggleMute rnd e w)) = (muted w \<or> isPlaying w) \<and>
   pending (snd (toggleMute rnd e w)) =
     (if muted w \<and> \<not> isPlaying w then pending w @ [nextTimer w] else pending w)"
  by (simp add: toggleMute_def Let_def toggleMute_timers startMusic_timers)

text \<open>
  Claim C8: an unmuted \<open>playPluck\<close> creates one sine oscillator at the given
  frequency and one gain, whose envelope is 0 at the start time, a linear ramp to the
  given volume 10 ms later and an exponential ramp to 0.001 at 0.5 s after the start; the
  oscillator starts at the start time and stops 0.6 s after it.
\<close>

theorem playPluck_contract:
  "\<not> muted w \<Longrightarrow>
   playPluck freq time volume w =
     w\<lparr>nextId := nextId w + 2,
       ops := ops w @
         [CreateOscillator (nextId w), CreateGain (nextId w + 1),
          SetOscType (nextId w) Sine,
          SetParamValue (nextId w) Frequency freq,
          Schedule (nextId w + 1) Gain (SetValueAtTime 0 time),
          Schedule (nextId w + 1) Gain (LinearRampToValueAtTime volume (time + 10/1000)),
          Schedule (nextId w + 1) Gain (ExponentialRampToValueAtTime (1/1000) (time + 500/1000)),
          Connect (nextId w) (nextId w + 1),
          Connect (nextId w + 1) (musicGain w),
          Start (nextId w) time,
          Stop (nextId w) (time + 600/1000)]\<rparr>"
  by (simp add: playPluck_def Let_def)

lemma step_keeps_timerIDs:
  "c \<noteq> CallStopMusic \<Longrightarrow> take (length (timerIDs w)) (timerIDs (step rnd e c w)) = timerIDs w"
proof (cases c)
  case CallStartMusic
  then show ?thesis by (cases "isPlaying w") (simp_all add: startMusic_timers startMusic_noop)
next
  case CallToggleMute
  then show ?thesis by (simp add: toggleMute_timers)
next
  case TimerFires
  then show ?thesis
    by (cases "isPlaying w") (simp_all add: loop_timers loop_idle split: list.splits)
qed simp_all

lemma step_playing:
  assumes "timersOk w" "isPlaying w" "c \<noteq> CallStopMusic"
  shows "isPlaying (step rnd e c w)"
    and "length (timerIDs (step rnd e c w))
           = length (timerIDs w) + (if c = TimerFires then 1 else 0)"
proof -
  from assms(1,2) obtain h where h: "pending w = [h]"
    by (cases "pending w") (auto simp add: timersOk_def)
  show "isPlaying (step rnd e c w)"
    using assms(2,3) h by (cases c) (simp_all add: toggleMute_timers)
  show "length (timerIDs (step rnd e c w))
           = length (timerIDs w) + (if c = TimerFires then 1 else 0)"
    using assms(2,3) h
    by (cases c) (simp_all add: toggleMute_timers startMusic_noop loop_timers)
qed

lemma exec_playing:
  "timersOk w \<Longrightarrow> isPlaying w \<Longrightarrow> \<not> list_ex isStop evs \<Longrightarrow>
   isPlaying (exec rnd evs w) \<and>
   length (timerIDs (exec rnd evs w)) = length (timerIDs w) + length (filter isTimerFires evs) \<and>
   take (length (timerIDs w)) (timerIDs (exec rnd evs w)) = timerIDs w"
proof (induction evs arbitrary: w)
  case Nil
  then show ?case by simp
next
  case (Cons ec evs)
  from Cons.prems(3) isStop_def [of ec]
  have c: "snd ec \<noteq> CallStopMusic" and rest: "\<not> list_ex isStop evs"
    by simp_all
  let ?w = "step rnd (fst ec) (snd ec) w"
  have ok: "timersOk ?w" using Cons.prems(1) by (rule timersOk_step)
  have pl: "isPlaying ?w" using Cons.prems(1,2) c by (rule step_playing(1))
  have len: "length (timerIDs ?w) = length (timerIDs w) + (if snd ec = TimerFires then 1 else 0)"
    using Cons.prems(1,2) c by (rule step_playing(2))
  have pre: "take (length (timerIDs w)) (timerIDs ?w) = timerIDs w"
    using c by (rule step_keeps_timerIDs)
  from Cons.IH [OF ok pl rest] have
    ih1: "isPlaying (exec rnd evs ?w)" and
    ih2: "length (timerIDs (exec rnd evs ?w)) = length (timerIDs ?w) + length (filter isTimerFires evs)" and
    ih3: "take (length (timerIDs ?w)) (timerIDs (exec rnd evs ?w)) = timerIDs ?w"
    by simp_all
  have "take (length (timerIDs w)) (timerIDs (exec rnd evs ?w))
          = take (length (timerIDs w)) (take (length (timerIDs ?w)) (timerIDs (exec rnd evs ?w)))"
    using len by (simp add: min_def)
  also have "\<dots> = timerIDs w" using ih3 pre by simp
  finally have pre': "take (length (timerIDs w)) (timerIDs (exec rnd evs ?w)) = timerIDs w" .
  show ?case using ih1 ih2 len pre' isTimerFires_def [of ec] by simp
qed

lemma idle_no_timers: "timersOk w \<Longrightarrow> \<not> isPlaying w \<Longrightarrow> timerIDs w = [] \<and> pending w = []"
  by (auto simp add: timersOk_def)

lemma begin_loop_timerIDs:
  assumes ok: "timersOk w" and idle: "\<not> isPlaying w" and pl: "isPlaying (step rnd e c w)"
  shows "timerIDs (step rnd e c w) = [nextTimer w]"
proof -
  from ok idle have empty: "timerIDs w = []" "pending w = []" by (simp_all add: idle_no_timers)
  show ?thesis
    using idle pl empty
    by (cases c) (simp_all add: startMusic_timers toggleMute_timers stopMusic_def split: if_splits)
qed

lemma step_timerIDs_playing:
  assumes ok: "timersOk w" and pl: "isPlaying w"
  shows "timerIDs (step rnd e c w) =
           (if c = CallStopMusic then []
            else timerIDs w @ (if c = TimerFires then [nextTimer w] else []))"
proof -
  from ok pl obtain h where h: "pending w = [h]"
    by (cases "pending w") (auto simp add: timersOk_def)
  show ?thesis
    using pl h
    by (cases c) (simp_all add: toggleMute_timers startMusic_noop loop_timers stopMusic_def)
qed

text \<open>
  Claim C10: take any idle world the engine can reach and any event that sets the sequencer
  running from it, a call of \<open>startMusic\<close> or the unmuting \<open>toggleMute\<close> that calls it; the
  idle world has an empty \<open>timerIDs\<close>, and the first tick, run within that call, leaves one
  handle. After any further events without \<open>stopMusic\<close> the length of \<open>timerIDs\<close> is the
  number of ticks run, one plus the number of timers that fired; the first handle is still
  at the front and only one timer is still set, so the handles of the fired timers stay.
  From there every event other than \<open>stopMusic\<close> keeps the list, a firing timer appending
  exactly one handle to it, and \<open>stopMusic\<close> empties it and clears the timer that is set.
\<close>

theorem timerIDs_grow_with_ticks:
  "\<not> isPlaying (exec rnd before (construct sr)) \<Longrightarrow>
   isPlaying (step rnd e c (exec rnd before (construct sr))) \<Longrightarrow>
   \<not> list_ex isStop evs \<Longrightarrow>
   timerIDs (exec rnd before (construct sr)) = [] \<and>
   timerIDs (step rnd e c (exec rnd before (construct sr)))
     = [nextTimer (exec rnd before (construct sr))] \<and>
   length (timerIDs (exec rnd evs (step rnd e c (exec rnd before (construct sr)))))
     = 1 + length (filter isTimerFires evs) \<and>
   take 1 (timerIDs (exec rnd evs (step rnd e c (exec rnd before (construct sr)))))
     = [nextTimer (exec rnd before (construct sr))] \<and>
   length (pending (exec rnd evs (step rnd e c (exec rnd before (construct sr))))) = 1 \<and>
   timerIDs (step rnd e' c' (exec rnd evs (step rnd e c (exec rnd before (construct sr)))))
     = (if c' = CallStopMusic then []
        else timerIDs (exec rnd evs (step rnd e c (exec rnd before (construct sr))))
             @ (if c' = TimerFires
                then [nextTimer (exec rnd evs (step rnd e c (exec rnd before (construct sr))))]
                else [])) \<and>
   timerIDs (stopMusic e' (exec rnd evs (step rnd e c (exec rnd before (construct sr))))) = [] \<and>
   pending (stopMusic e' (exec rnd evs (step rnd e c (exec rnd before (construct sr))))) = []"
proof -
  let ?idle = "exec rnd before (construct sr)"
  let ?begun = "step rnd e c ?idle"
  let ?run = "exec rnd evs ?begun"
  assume idle: "\<not> isPlaying ?idle" and pl1: "isPlaying ?begun" and nostop: "\<not> list_ex isStop evs"
  have ok0: "timersOk ?idle" by (rule timersOk_reachable)
  from ok0 idle have empty: "timerIDs ?idle = []" by (simp add: idle_no_timers)
  have ok1: "timersOk ?begun" using ok0 by (rule timersOk_step)
  have first: "timerIDs ?begun = [nextTimer ?idle]" using ok0 idle pl1 by (rule begin_loop_timerIDs)
  note run = exec_playing [OF ok1 pl1 nostop, of rnd]
  have ok: "timersOk ?run" using ok1 by (rule timersOk_exec)
  have pl: "isPlaying ?run" using run by simp
  have len: "length (timerIDs ?run) = 1 + length (filter isTimerFires evs)"
    using run first by simp
  have pre: "take 1 (timerIDs ?run) = [nextTimer ?idle]" using run first by simp
  have pend: "length (pending ?run) = 1" using ok pl by (simp add: timersOk_def)
  note each = step_timerIDs_playing [OF ok pl, of rnd e' c']
  have s1: "timerIDs (stopMusic e' ?run) = []" by (simp add: stopMusic_def)
  have s2: "pending (stopMusic e' ?run) = []" using ok by (rule stop_clears)
  from empty first len pre pend each s1 s2 show ?thesis by blast
qed

text \<open>
  The three cases at work: muting a fresh engine, then unmuting it, which starts the loop.
\<close>

theorem toggleMute_contract_witness:
  "fst (toggleMute (steady (1/2)) (at_ms 0) (construct 44100)) \<and>
   \<not> fst (toggleMute (steady (1/2)) (at_ms 5) (snd (toggleMute (steady (1/2)) (at_ms 0) (construct 44100)))) \<and>
   isPlaying (snd (toggleMute (steady (1/2)) (at_ms 5) (snd (toggleMute (steady (1/2)) (at_ms 0) (construct 44100)))))"
  using toggleMute_contract [of "steady (1/2)" "at_ms 0" "construct 44100"]
    toggleMute_contract [of "steady (1/2)" "at_ms 5" "snd (toggleMute (steady (1/2)) (at_ms 0) (construct 44100))"]
  by (simp add: construct_def)

text \<open>
  A pluck of 440 Hz at time 0 with volume 0.08 on a fresh engine.
\<close>

theorem playPluck_contract_witness:
  "\<not> muted (construct 44100) \<and>
   playPluck 440 0 (2/25) (construct 44100) =
     (construct 44100)\<lparr>nextId := nextId (construct 44100) + 2,
       ops := ops (construct 44100) @
         [CreateOscillator (nextId (construct 44100)), CreateGain (nextId (construct 44100) + 1),
          SetOscType (nextId (construct 44100)) Sine,
          SetParamValue (nextId (construct 44100)) Frequency 440,
          Schedule (nextId (construct 44100) + 1) Gain (SetValueAtTime 0 0),
          Schedule (nextId (construct 44100) + 1) Gain (LinearRampToValueAtTime (2/25) (0 + 10/1000)),
          Schedule (nextId (construct 44100) + 1) Gain (ExponentialRampToValueAtTime (1/1000) (0 + 500/1000)),
          Connect (nextId (construct 44100)) (nextId (construct 44100) + 1),
          Connect (nextId (construct 44100) + 1) (musicGain (construct 44100)),
          Start (nextId (construct 44100)) 0,
          Stop (nextId (construct 44100)) (0 + 600/1000)]\<rparr>"
proof -
  have h: "\<not> muted (construct 44100)" by (simp add: construct_def)
  from h playPluck_contract [OF h] show ?thesis by (rule conjI)
qed

text \<open>
  A fresh engine is muted and then unmuted, which starts the loop; two timers fire, with a
  mute in between: three ticks, three handles, and none after \<open>stopMusic\<close>.
\<close>

theorem timerIDs_grow_with_ticks_witness:
  "\<not> isPlaying (exec (steady (1/2)) [(at_ms 0, CallToggleMute)] (construct 44100)) \<and>
   isPlaying (step (steady (1/2)) (at_ms 50) CallToggleMute
                (exec (steady (1/2)) [(at_ms 0, CallToggleMute)] (construct 44100))) \<and>
   \<not> list_ex isStop [(at_ms 200, TimerFires), (at_ms 210, CallToggleMute), (at_ms 350, TimerFires)] \<and>
   length (timerIDs (exec (steady (1/2))
       [(at_ms 200, TimerFires), (at_ms 210, CallToggleMute), (at_ms 350, TimerFires)]
       (step (steady (1/2)) (at_ms 50) CallToggleMute
          (exec (steady (1/2)) [(at_ms 0, CallToggleMute)] (construct 44100))))) = 3 \<and>
   timerIDs (stopMusic (at_ms 400) (exec (steady (1/2))
       [(at_ms 200, TimerFires), (at_ms 210, CallToggleMute), (at_ms 350, TimerFires)]
       (step (steady (1/2)) (at_ms 50) CallToggleMute
          (exec (steady (1/2)) [(at_ms 0, CallToggleMute)] (construct 44100))))) = []"
proof -
  have h1: "\<not> isPlaying (exec (steady (1/2)) [(at_ms 0, CallToggleMute)] (construct 44100))"
    by (simp add: toggleMute_timers construct_def)
  have h2: "isPlaying (step (steady (1/2)) (at_ms 50) CallToggleMute
                (exec (steady (1/2)) [(at_ms 0, CallToggleMute)] (construct 44100)))"
    by (simp add: toggleMute_timers toggleMute_muted construct_def)
  have h3: "\<not> list_ex isStop [(at_ms 200, TimerFires), (at_ms 210, CallToggleMute), (at_ms 350, TimerFires)]"
    by (simp add: isStop_def)
  have h4: "1 + length (filter isTimerFires
              [(at_ms 200, TimerFires), (at_ms 210, CallToggleMute), (at_ms 350, TimerFires)]) = 3"
    by (simp add: isTimerFires_def)
  note t = timerIDs_grow_with_ticks [OF h1 h2 h3, of "at_ms 400" TimerFires]
  from t h4 have a: "length (timerIDs (exec (steady (1/2))
       [(at_ms 200, TimerFires), (at_ms 210, CallToggleMute), (at_ms 350, TimerFires)]
       (step (steady (1/2)) (at_ms 50) CallToggleMute
          (exec (steady (1/2)) [(at_ms 0, CallToggleMute)] (construct 44100))))) = 3"
    by presburger
  from t have b: "timerIDs (stopMusic (at_ms 400) (exec (steady (1/2))
       [(at_ms 200, TimerFires), (at_ms 210, CallToggleMute), (at_ms 350, TimerFires)]
       (step (steady (1/2)) (at_ms 50) CallToggleMute
          (exec (steady (1/2)) [(at_ms 0, CallToggleMute)] (construct 44100))))) = []"
    by blast
  from h1 h2 h3 a b show ?thesis by blast
qed

subsection \<open>Blocks of calls on fresh nodes\<close>

lemma path_numeral:
  "path os avoid (numeral k) n m =
     (n \<notin> set avoid \<and> (n = m \<or> list_ex (\<lambda>x. path os avoid (pred_numeral k) x m) (targets os n)))"
  by (simp add: numeral_eq_Suc)

lemma frac_unit: "0 \<le> x \<Longrightarrow> x < 1 \<Longrightarrow> frac x = (x::rat)"
  by (simp add: frac_eq)

lemma targets_append [simp]: "targets (a @ b) n = targets a n @ targets b n"
  by (simp add: targets_def)

lemma targets_Nil [simp]: "targets [] n = []"
  by (simp add: targets_def)

lemma targets_Cons [simp]: "targets (x # xs) n = targetOf n x @ targets xs n"
  by (simp add: targets_def)

lemma started_append [simp]: "started (a @ b) = started a @ started b"
  by (simp add: started_def)

lemma started_Nil [simp]: "started [] = []"
  by (simp add: started_def)

lemma started_Cons [simp]: "started (x # xs) = startedBy x @ started xs"
  by (simp add: started_def)

lemma idsBelow_append [simp]: "idsBelow N (a @ b) = (idsBelow N a \<and> idsBelow N b)"
  by (simp add: idsBelow_def)

lemma idsBelow_Nil [simp]: "idsBelow N []"
  by (simp add: idsBelow_def)

lemma idsBelow_Cons [simp]:
  "idsBelow N (x # xs) = (list_all (\<lambda>n. n < N) (opNodes x) \<and> idsBelow N xs)"
  by (simp add: idsBelow_def)

lemma idsBelow_mono: "idsBelow N os \<Longrightarrow> N \<le> M \<Longrightarrow> idsBelow M os"
  by (induction os) (auto simp add: list_all_iff)

lemma wiresFrom_mono: "wiresFrom M x \<Longrightarrow> N \<le> M \<Longrightarrow> wiresFrom N x"
  by (cases x) auto

lemma wiresFrom_all_mono: "list_all (wiresFrom M) os \<Longrightarrow> N \<le> M \<Longrightarrow> list_all (wiresFrom N) os"
  by (auto simp add: list_all_iff intro: wiresFrom_mono)

lemma targets_unborn: "idsBelow N os \<Longrightarrow> N \<le> n \<Longrightarrow> targets os n = []"
proof (induction os)
  case Nil
  then show ?case by simp
next
  case (Cons x xs)
  then show ?case by (cases x) auto
qed

lemma targets_block_old: "list_all (wiresFrom N) blk \<Longrightarrow> n < N \<Longrightarrow> targets blk n = []"
proof (induction blk)
  case Nil
  then show ?case by simp
next
  case (Cons x xs)
  then show ?case by (cases x) auto
qed

lemma targets_below: "idsBelow N os \<Longrightarrow> x \<in> set (targets os n) \<Longrightarrow> x < N"
proof (induction os)
  case Nil
  then show ?case by simp
next
  case (Cons y ys)
  then show ?case by (cases y) (auto split: if_splits)
qed

lemma started_below: "idsBelow N os \<Longrightarrow> n \<in> set (started os) \<Longrightarrow> n < N"
proof (induction os)
  case Nil
  then show ?case by simp
next
  case (Cons y ys)
  then show ?case by (cases y) auto
qed

lemma oscType_block_old: "list_all (wiresFrom N) blk \<Longrightarrow> n < N \<Longrightarrow> SetOscType n k \<notin> set blk"
  by (induction blk) auto

lemma oscType_unborn: "idsBelow N os \<Longrightarrow> N \<le> n \<Longrightarrow> SetOscType n k \<notin> set os"
  by (induction os) auto

lemma path_block_old:
  "idsBelow N os \<Longrightarrow> list_all (wiresFrom N) blk \<Longrightarrow> n < N \<Longrightarrow>
   path (os @ blk) avoid k n m = path os avoid k n m"
proof (induction k arbitrary: n)
  case 0
  then show ?case by simp
next
  case (Suc k)
  have t: "targets (os @ blk) n = targets os n"
    using Suc.prems by (simp add: targets_block_old)
  have "\<And>x. x \<in> set (targets os n) \<Longrightarrow> path (os @ blk) avoid k x m = path os avoid k x m"
    using Suc.IH Suc.prems targets_below by blast
  then have "list_ex (\<lambda>x. path (os @ blk) avoid k x m) (targets os n)
               = list_ex (\<lambda>x. path os avoid k x m) (targets os n)"
    by (simp add: list_ex_iff)
  then show ?case using t by simp
qed

lemma extends_refl: "extends w w"
  by (simp add: extends_def)

lemma extends_ops: "extends w w' \<Longrightarrow> ops w' = ops w @ drop (length (ops w)) (ops w')"
  by (metis append_take_drop_id extends_def)

lemma extendsD:
  assumes "extends w w'"
  shows "nextId w \<le> nextId w'" "musicGain w' = musicGain w" "masterGain w' = masterGain w"
    "list_all (wiresFrom (nextId w)) (drop (length (ops w)) (ops w'))"
    "idsBelow (nextId w') (drop (length (ops w)) (ops w'))"
  using assms by (simp_all add: extends_def)

lemma extendsI:
  assumes "ops w' = ops w @ blk" "nextId w \<le> nextId w'"
    "musicGain w' = musicGain w" "masterGain w' = masterGain w"
    "list_all (wiresFrom (nextId w)) blk" "idsBelow (nextId w') blk"
  shows "extends w w'"
  using assms by (simp add: extends_def)

lemma extends_trans:
  assumes ab: "extends a b" and bc: "extends b c"
  shows "extends a c"
proof -
  let ?b1 = "drop (length (ops a)) (ops b)"
  let ?b2 = "drop (length (ops b)) (ops c)"
  have ob: "ops b = ops a @ ?b1" using ab by (rule extends_ops)
  have oc: "ops c = ops b @ ?b2" using bc by (rule extends_ops)
  have oc': "ops c = ops a @ (?b1 @ ?b2)" using ob oc by (metis append.assoc)
  have le: "nextId a \<le> nextId b" "nextId b \<le> nextId c"
    using extendsD(1) [OF ab] extendsD(1) [OF bc] by simp_all
  have w1: "list_all (wiresFrom (nextId a)) ?b1" by (rule extendsD(4) [OF ab])
  have w2: "list_all (wiresFrom (nextId a)) ?b2"
    using extendsD(4) [OF bc] le(1) by (rule wiresFrom_all_mono)
  have i1: "idsBelow (nextId c) ?b1" using extendsD(5) [OF ab] le(2) by (rule idsBelow_mono)
  have i2: "idsBelow (nextId c) ?b2" by (rule extendsD(5) [OF bc])
  show ?thesis
  proof (rule extendsI [OF oc'])
    show "nextId a \<le> nextId c" using le by simp
    show "musicGain c = musicGain a" using ab bc by (simp add: extends_def)
    show "masterGain c = masterGain a" using ab bc by (simp add: extends_def)
    show "list_all (wiresFrom (nextId a)) (?b1 @ ?b2)" using w1 w2 by simp
    show "idsBelow (nextId c) (?b1 @ ?b2)" using i1 i2 by simp
  qed
qed

lemma extends_idsFresh: "idsFresh w \<Longrightarrow> extends w w' \<Longrightarrow> idsFresh w'"
proof -
  assume f: "idsFresh w" and x: "extends w w'"
  have o: "ops w' = ops w @ drop (length (ops w)) (ops w')" using x by (rule extends_ops)
  have "idsBelow (nextId w) (ops w)" using f by (simp add: idsFresh_def)
  then have "idsBelow (nextId w') (ops w)"
    using extendsD(1) [OF x] by (rule idsBelow_mono)
  moreover have "idsBelow (nextId w') (drop (length (ops w)) (ops w'))"
    by (rule extendsD(5) [OF x])
  ultimately have "idsBelow (nextId w') (ops w')" using o by (metis idsBelow_append)
  then show ?thesis using f extendsD(1,2,3) [OF x] by (simp add: idsFresh_def)
qed

lemma extends_step:
  "idsFresh w \<Longrightarrow> extends w v \<Longrightarrow> (idsFresh v \<Longrightarrow> extends v u) \<Longrightarrow> extends w u"
  using extends_idsFresh extends_trans by blast

lemma extends_targets:
  "idsFresh w \<Longrightarrow> extends w w' \<Longrightarrow> n < nextId w \<Longrightarrow> targets (ops w') n = targets (ops w) n"
proof -
  assume f: "idsFresh w" and x: "extends w w'" and n: "n < nextId w"
  have "targets (ops w') n = targets (ops w @ drop (length (ops w)) (ops w')) n"
    using extends_ops [OF x] by simp
  also have "\<dots> = targets (ops w) n"
    using targets_block_old [OF extendsD(4) [OF x] n] by simp
  finally show ?thesis .
qed

lemma extends_path:
  "idsFresh w \<Longrightarrow> extends w w' \<Longrightarrow> n < nextId w \<Longrightarrow>
   path (ops w') avoid k n m = path (ops w) avoid k n m"
proof -
  assume f: "idsFresh w" and x: "extends w w'" and n: "n < nextId w"
  have "path (ops w') avoid k n m = path (ops w @ drop (length (ops w)) (ops w')) avoid k n m"
    using extends_ops [OF x] by simp
  also have "\<dots> = path (ops w) avoid k n m"
  proof (rule path_block_old [OF _ extendsD(4) [OF x] n])
    show "idsBelow (nextId w) (ops w)" using f by (simp add: idsFresh_def)
  qed
  finally show ?thesis .
qed

lemma extends_musicNotes:
  assumes f: "idsFresh w" and x: "extends w w'"
  shows "musicNotes w' = musicNotes w @
           filter (\<lambda>n. path (ops w') [] 3 n (musicGain w)) (started (drop (length (ops w)) (ops w')))"
proof -
  have o: "ops w' = ops w @ drop (length (ops w)) (ops w')" using x by (rule extends_ops)
  have m: "musicGain w' = musicGain w" using x by (simp add: extends_def)
  have old: "filter (\<lambda>n. path (ops w') [] 3 n (musicGain w)) (started (ops w))
               = filter (\<lambda>n. path (ops w) [] 3 n (musicGain w)) (started (ops w))"
  proof (rule filter_cong [OF refl])
    fix n assume "n \<in> set (started (ops w))"
    then have "n < nextId w" using f by (auto simp add: idsFresh_def intro: started_below)
    then show "path (ops w') [] 3 n (musicGain w) = path (ops w) [] 3 n (musicGain w)"
      using f x by (rule extends_path [rotated 2])
  qed
  have "musicNotes w' = filter (\<lambda>n. path (ops w') [] 3 n (musicGain w))
          (started (ops w @ drop (length (ops w)) (ops w')))"
    using o m by (simp add: musicNotes_def)
  then show ?thesis using old by (simp add: musicNotes_def)
qed

lemma musicNotes_below: "idsFresh w \<Longrightarrow> n \<in> set (musicNotes w) \<Longrightarrow> n < nextId w"
  by (auto simp add: musicNotes_def idsFresh_def intro: started_below)

lemma extends_voices:
  assumes f: "idsFresh w" and x: "extends w w'"
  shows "voices k w' = voices k w @
           filter (\<lambda>n. SetOscType n k \<in> set (ops w'))
             (filter (\<lambda>n. path (ops w') [] 3 n (musicGain w)) (started (drop (length (ops w)) (ops w'))))"
proof -
  have o: "ops w' = ops w @ drop (length (ops w)) (ops w')" using x by (rule extends_ops)
  have old: "filter (\<lambda>n. SetOscType n k \<in> set (ops w')) (musicNotes w)
               = filter (\<lambda>n. SetOscType n k \<in> set (ops w)) (musicNotes w)"
  proof (rule filter_cong [OF refl])
    fix n assume "n \<in> set (musicNotes w)"
    then have n: "n < nextId w" using f by (rule musicNotes_below [rotated])
    have "SetOscType n k \<notin> set (drop (length (ops w)) (ops w'))"
      using extendsD(4) [OF x] n by (rule oscType_block_old)
    then show "(SetOscType n k \<in> set (ops w')) = (SetOscType n k \<in> set (ops w))"
      using o by (metis Un_iff set_append)
  qed
  show ?thesis
    unfolding voices_def extends_musicNotes [OF f x] using old by simp
qed

subsection \<open>Every operation extends the log\<close>

lemma extends_quiet:
  "ops v = ops w \<Longrightarrow> nextId v = nextId w \<Longrightarrow> musicGain v = musicGain w \<Longrightarrow>
   masterGain v = masterGain w \<Longrightarrow> extends w v"
  by (simp add: extends_def)

lemma idsFresh_quiet:
  "ops v = ops w \<Longrightarrow> nextId v = nextId w \<Longrightarrow> musicGain v = musicGain w \<Longrightarrow>
   masterGain v = masterGain w \<Longrightarrow> idsFresh v = idsFresh w"
  by (simp add: idsFresh_def)

lemma voices_quiet:
  "ops v = ops w \<Longrightarrow> musicGain v = musicGain w \<Longrightarrow> voices k v = voices k w"
  by (simp add: voices_def musicNotes_def)

lemma musicNotes_quiet:
  "ops v = ops w \<Longrightarrow> musicGain v = musicGain w \<Longrightarrow> musicNotes v = musicNotes w"
  by (simp add: musicNotes_def)

lemma playPluck_extends: "idsFresh w \<Longrightarrow> extends w (playPluck f t v w)"
  by (simp add: playPluck_def Let_def extends_def idsFresh_def)

lemma playBass_extends: "idsFresh w \<Longrightarrow> extends w (playBass f t w)"
  by (simp add: playBass_def Let_def extends_def idsFresh_def)

lemma playServo_extends: "idsFresh w \<Longrightarrow> extends w (playServo e w)"
  by (simp add: playServo_def Let_def extends_def idsFresh_def)

lemma playHover_extends: "idsFresh w \<Longrightarrow> extends w (playHover e w)"
  by (simp add: playHover_def Let_def extends_def idsFresh_def)

lemma successVoice_extends: "idsFresh w \<Longrightarrow> extends w (successVoice t fi w)"
  by (simp add: successVoice_def Let_def extends_def idsFresh_def)

lemma scrambleBlip_extends: "idsFresh w \<Longrightarrow> extends w (scrambleBlip rnd t i w)"
  by (simp add: scrambleBlip_def math_random_def Let_def extends_def idsFresh_def)

lemma playSnap_extends: "idsFresh w \<Longrightarrow> extends w (playSnap rnd e w)"
  by (simp add: playSnap_def createNoiseBuffer_def Let_def extends_def idsFresh_def)

lemma stopMusic_extends: "idsFresh w \<Longrightarrow> extends w (stopMusic e w)"
  by (simp add: stopMusic_def extends_def idsFresh_def)

lemma fold_extends:
  assumes "\<And>x v. idsFresh v \<Longrightarrow> extends v (f x v)"
  shows "idsFresh w \<Longrightarrow> extends w (fold f xs w)"
proof (induction xs arbitrary: w)
  case Nil
  then show ?case by (simp add: extends_refl)
next
  case (Cons x xs)
  have a: "extends w (f x w)" using Cons.prems by (rule assms)
  have b: "idsFresh (f x w)" using Cons.prems a by (rule extends_idsFresh)
  have c: "extends (f x w) (fold f xs (f x w))" using b by (rule Cons.IH)
  show ?case using a c by (simp add: extends_trans)
qed

lemma playScrambleNoise_extends: "idsFresh w \<Longrightarrow> extends w (playScrambleNoise rnd e w)"
proof (cases "muted w")
  case True
  then show ?thesis by (simp add: playScrambleNoise_def extends_refl)
next
  case False
  assume f: "idsFresh w"
  have "extends w (fold (scrambleBlip rnd (currentTime e)) [0..<8] w)"
    using scrambleBlip_extends f by (rule fold_extends)
  then show ?thesis using False unfolding playScrambleNoise_def by simp
qed

lemma playSuccess_extends: "idsFresh w \<Longrightarrow> extends w (playSuccess e w)"
proof (cases "muted w")
  case True
  then show ?thesis by (simp add: playSuccess_def extends_refl)
next
  case False
  assume f: "idsFresh w"
  have "extends w (fold (successVoice (currentTime e))
          (zip [440, 554, 659, 830] [0..<length [440::rat, 554, 659, 830]]) w)"
    using successVoice_extends f by (rule fold_extends)
  then show ?thesis using False unfolding playSuccess_def Let_def by simp
qed

lemma melodyLayer_extends: "idsFresh w \<Longrightarrow> extends w (melodyLayer rnd now w)"
proof -
  assume f: "idsFresh w"
  let ?w1 = "w\<lparr>rngCalls := rngCalls w + 1\<rparr>"
  let ?w2 = "?w1\<lparr>rngCalls := rngCalls ?w1 + 1\<rparr>"
  have q1: "extends w ?w1" by (rule extends_quiet) simp_all
  have q2: "extends w ?w2" by (rule extends_quiet) simp_all
  have f2: "idsFresh ?w2" using f q2 by (rule extends_idsFresh)
  have "extends w (playPluck (pick scaleHigh (frac (rnd (rngCalls ?w1)))) now (2/25) ?w2)"
    using q2 playPluck_extends [OF f2] by (rule extends_trans)
  with q1 show ?thesis by (simp add: melodyLayer_def math_random_def Let_def)
qed

lemma bassLayer_extends: "idsFresh w \<Longrightarrow> extends w (bassLayer rnd e now w)"
proof -
  assume f: "idsFresh w"
  let ?w1 = "w\<lparr>rngCalls := rngCalls w + 1\<rparr>"
  have q1: "extends w ?w1" by (rule extends_quiet) simp_all
  have f1: "idsFresh ?w1" using f q1 by (rule extends_idsFresh)
  have "extends w (playBass (pick scaleLow (frac (rnd (rngCalls w)))) now ?w1)"
    using q1 playBass_extends [OF f1] by (rule extends_trans)
  then show ?thesis by (simp add: bassLayer_def math_random_def Let_def extends_refl)
qed

lemma scheduleNext_extends: "extends w (scheduleNext w)"
  by (rule extends_quiet) (simp_all add: scheduleNext_def)

lemma loop_extends: "idsFresh w \<Longrightarrow> extends w (loop rnd e w)"
proof (cases "isPlaying w")
  case False
  then show ?thesis by (simp add: loop_idle extends_refl)
next
  case True
  assume f: "idsFresh w"
  let ?a = "melodyLayer rnd (currentTime e) w"
  let ?b = "bassLayer rnd e (currentTime e) ?a"
  have a: "extends w ?a" using f by (rule melodyLayer_extends)
  have fa: "idsFresh ?a" using f a by (rule extends_idsFresh)
  have b: "extends ?a ?b" using fa by (rule bassLayer_extends)
  have "extends w (scheduleNext ?b)"
    using a b scheduleNext_extends by (blast intro: extends_trans)
  then show ?thesis using True by (simp add: loop_playing)
qed

lemma startMusic_extends: "idsFresh w \<Longrightarrow> extends w (startMusic rnd e w)"
proof (cases "isPlaying w")
  case True
  then show ?thesis by (simp add: startMusic_noop extends_refl)
next
  case False
  assume f: "idsFresh w"
  let ?w1 = "w\<lparr>isPlaying := True,
             ops := ops w @
               [Schedule (musicGain w) Gain (SetValueAtTime 0 (currentTime e)),
                Schedule (musicGain w) Gain (LinearRampToValueAtTime (1/4) (currentTime e + 2))]\<rparr>"
  have a: "extends w ?w1" using f by (simp add: extends_def idsFresh_def)
  have f1: "idsFresh ?w1" using f a by (rule extends_idsFresh)
  have "extends w (loop rnd e ?w1)" using a loop_extends [OF f1] by (rule extends_trans)
  then show ?thesis using False by (simp add: startMusic_def Let_def)
qed

lemma toggleMute_extends: "idsFresh w \<Longrightarrow> extends w (snd (toggleMute rnd e w))"
proof -
  assume f: "idsFresh w"
  let ?w2 = "w\<lparr>muted := \<not> muted w,
    ops := ops w @ [Schedule (masterGain w) Gain
       (SetTargetAtTime (if \<not> muted w then 0 else 2/5) (currentTime e) (1/10))]\<rparr>"
  have a: "extends w ?w2" using f by (simp add: extends_def idsFresh_def)
  have f2: "idsFresh ?w2" using f a by (rule extends_idsFresh)
  let ?w' = "if \<not> isPlaying ?w2 then startMusic rnd e ?w2 else ?w2"
  have b: "extends ?w2 ?w'" using f2 by (simp add: startMusic_extends extends_refl)
  have fb: "idsFresh ?w'" using f2 b by (rule extends_idsFresh)
  have c: "extends ?w' (?w'\<lparr>ops := ops ?w' @
      [Schedule (musicGain ?w') Gain (SetTargetAtTime (1/4) (currentTime e) 1)]\<rparr>)"
    using fb by (simp add: extends_def idsFresh_def)
  have d: "extends ?w2 (?w2\<lparr>ops := ops ?w2 @
      [Schedule (musicGain ?w2) Gain (SetTargetAtTime 0 (currentTime e) (1/2))]\<rparr>)"
    using f2 by (simp add: extends_def idsFresh_def)
  show ?thesis
  proof (cases "muted w")
    case True
    have eq: "snd (toggleMute rnd e w) = ?w'\<lparr>ops := ops ?w' @
      [Schedule (musicGain ?w') Gain (SetTargetAtTime (1/4) (currentTime e) 1)]\<rparr>"
      using True by (simp add: toggleMute_def Let_def)
    show ?thesis unfolding eq by (rule extends_trans [OF a extends_trans [OF b c]])
  next
    case False
    have eq: "snd (toggleMute rnd e w) = ?w2\<lparr>ops := ops ?w2 @
      [Schedule (musicGain ?w2) Gain (SetTargetAtTime 0 (currentTime e) (1/2))]\<rparr>"
      using False by (simp add: toggleMute_def Let_def)
    show ?thesis unfolding eq by (rule extends_trans [OF a d])
  qed
qed

lemma step_extends: "idsFresh w \<Longrightarrow> extends w (step rnd e c w)"
proof (cases c)
  case TimerFires
  assume f: "idsFresh w"
  show ?thesis
  proof (cases "pending w")
    case Nil
    then show ?thesis using TimerFires by (simp add: extends_refl)
  next
    case (Cons h rest)
    have a: "extends w (w\<lparr>pending := rest\<rparr>)" by (rule extends_quiet) simp_all
    have "idsFresh (w\<lparr>pending := rest\<rparr>)" using f a by (rule extends_idsFresh)
    then have "extends (w\<lparr>pending := rest\<rparr>) (loop rnd e (w\<lparr>pending := rest\<rparr>))"
      by (rule loop_extends)
    with a have "extends w (loop rnd e (w\<lparr>pending := rest\<rparr>))" by (rule extends_trans)
    then show ?thesis using TimerFires Cons by simp
  qed
qed (simp_all add: startMusic_extends stopMusic_extends toggleMute_extends playPluck_extends
      playBass_extends playSnap_extends playScrambleNoise_extends playServo_extends
      playHover_extends playSuccess_extends)

lemma exec_extends: "idsFresh w \<Longrightarrow> extends w (exec rnd evs w)"
proof (induction evs arbitrary: w)
  case Nil
  then show ?case by (simp add: extends_refl)
next
  case (Cons ec evs)
  have a: "extends w (step rnd (fst ec) (snd ec) w)" using Cons.prems by (rule step_extends)
  have "idsFresh (step rnd (fst ec) (snd ec) w)" using Cons.prems a by (rule extends_idsFresh)
  then have "extends (step rnd (fst ec) (snd ec) w) (exec rnd evs (step rnd (fst ec) (snd ec) w))"
    by (rule Cons.IH)
  with a show ?case by (simp add: extends_trans)
qed

lemma idsFresh_construct: "idsFresh (construct sr)"
  by (simp add: idsFresh_def construct_def destination_def)

lemma idsFresh_reachable: "idsFresh (exec rnd evs (construct sr))"
  using idsFresh_construct exec_extends [OF idsFresh_construct] by (rule extends_idsFresh)

subsection \<open>The notes of one tick\<close>

lemma playPluck_notes:
  assumes f: "idsFresh w" and m: "\<not> muted w"
  shows "musicNotes (playPluck fr t v w) = musicNotes w @ [nextId w]"
    and "voices k (playPluck fr t v w) = voices k w @ (if k = Sine then [nextId w] else [])"
proof -
  have t0: "\<And>n. nextId w \<le> n \<Longrightarrow> targets (ops w) n = []"
    using f targets_unborn [of "nextId w" "ops w"] by (simp add: idsFresh_def)
  have o0: "\<And>n k. nextId w \<le> n \<Longrightarrow> SetOscType n k \<notin> set (ops w)"
    using f oscType_unborn [of "nextId w" "ops w"] by (simp add: idsFresh_def)
  have g: "musicGain w < nextId w" using f by (simp add: idsFresh_def)
  note x = playPluck_extends [OF f, of fr t v]
  show "musicNotes (playPluck fr t v w) = musicNotes w @ [nextId w]"
    unfolding extends_musicNotes [OF f x]
    using m g by (simp add: playPluck_def Let_def path_numeral t0)
  show "voices k (playPluck fr t v w) = voices k w @ (if k = Sine then [nextId w] else [])"
    unfolding extends_voices [OF f x]
    using m g by (simp add: playPluck_def Let_def path_numeral t0 o0)
qed

lemma playBass_notes:
  assumes f: "idsFresh w" and m: "\<not> muted w"
  shows "musicNotes (playBass fr t w) = musicNotes w @ [nextId w]"
    and "voices k (playBass fr t w) = voices k w @ (if k = Triangle then [nextId w] else [])"
proof -
  have t0: "\<And>n. nextId w \<le> n \<Longrightarrow> targets (ops w) n = []"
    using f targets_unborn [of "nextId w" "ops w"] by (simp add: idsFresh_def)
  have o0: "\<And>n k. nextId w \<le> n \<Longrightarrow> SetOscType n k \<notin> set (ops w)"
    using f oscType_unborn [of "nextId w" "ops w"] by (simp add: idsFresh_def)
  have g: "musicGain w < nextId w" using f by (simp add: idsFresh_def)
  note x = playBass_extends [OF f, of fr t]
  show "musicNotes (playBass fr t w) = musicNotes w @ [nextId w]"
    unfolding extends_musicNotes [OF f x]
    using m g by (simp add: playBass_def Let_def path_numeral t0)
  show "voices k (playBass fr t w) = voices k w @ (if k = Triangle then [nextId w] else [])"
    unfolding extends_voices [OF f x]
    using m g by (simp add: playBass_def Let_def path_numeral t0 o0)
qed

lemma playPluck_muted: "muted w \<Longrightarrow> playPluck fr t v w = w"
  by (simp add: playPluck_def)

lemma playBass_muted: "muted w \<Longrightarrow> playBass fr t w = w"
  by (simp add: playBass_def)

lemma melodyLayer_notes:
  assumes f: "idsFresh w"
  shows "musicNotes (melodyLayer rnd now w) =
           musicNotes w @ (if \<not> muted w \<and> 3/10 < frac (rnd (rngCalls w)) then [nextId w] else [])"
    and "voices k (melodyLayer rnd now w) =
           voices k w @ (if \<not> muted w \<and> 3/10 < frac (rnd (rngCalls w)) \<and> k = Sine then [nextId w] else [])"
proof -
  let ?w2 = "w\<lparr>rngCalls := rngCalls w + 1 + 1\<rparr>"
  have f2: "idsFresh ?w2" using f by (simp add: idsFresh_def)
  have q: "musicNotes ?w2 = musicNotes w" "\<And>k. voices k ?w2 = voices k w"
    "\<And>x. musicNotes (w\<lparr>rngCalls := x\<rparr>) = musicNotes w"
    "\<And>x k. voices k (w\<lparr>rngCalls := x\<rparr>) = voices k w"
    by (simp_all add: musicNotes_def voices_def)
  show "musicNotes (melodyLayer rnd now w) =
           musicNotes w @ (if \<not> muted w \<and> 3/10 < frac (rnd (rngCalls w)) then [nextId w] else [])"
  proof (cases "muted w")
    case True
    then show ?thesis by (simp add: melodyLayer_def math_random_def Let_def playPluck_muted q)
  next
    case False
    then have "\<not> muted ?w2" by simp
    from playPluck_notes(1) [OF f2 this] q show ?thesis
      using False by (simp add: melodyLayer_def math_random_def Let_def)
  qed
  show "voices k (melodyLayer rnd now w) =
           voices k w @ (if \<not> muted w \<and> 3/10 < frac (rnd (rngCalls w)) \<and> k = Sine then [nextId w] else [])"
  proof (cases "muted w")
    case True
    then show ?thesis by (simp add: melodyLayer_def math_random_def Let_def playPluck_muted q)
  next
    case False
    then have "\<not> muted ?w2" by simp
    from playPluck_notes(2) [OF f2 this] q show ?thesis
      using False by (simp add: melodyLayer_def math_random_def Let_def)
  qed
qed

lemma bassLayer_notes:
  assumes f: "idsFresh w"
  shows "musicNotes (bassLayer rnd e now w) =
           musicNotes w @ (if \<not> muted w \<and> (dateNow e div 150) mod 8 = 0 then [nextId w] else [])"
    and "voices k (bassLayer rnd e now w) =
           voices k w @ (if \<not> muted w \<and> (dateNow e div 150) mod 8 = 0 \<and> k = Triangle then [nextId w] else [])"
proof -
  let ?w1 = "w\<lparr>rngCalls := rngCalls w + 1\<rparr>"
  have f1: "idsFresh ?w1" using f by (simp add: idsFresh_def)
  have q: "\<And>x. musicNotes (w\<lparr>rngCalls := x\<rparr>) = musicNotes w"
    "\<And>x k. voices k (w\<lparr>rngCalls := x\<rparr>) = voices k w"
    by (simp_all add: musicNotes_def voices_def)
  show "musicNotes (bassLayer rnd e now w) =
           musicNotes w @ (if \<not> muted w \<and> (dateNow e div 150) mod 8 = 0 then [nextId w] else [])"
  proof (cases "muted w")
    case True
    then show ?thesis by (simp add: bassLayer_def math_random_def Let_def playBass_muted q)
  next
    case False
    then have "\<not> muted ?w1" by simp
    from playBass_notes(1) [OF f1 this] q show ?thesis
      using False by (simp add: bassLayer_def math_random_def Let_def tempo_def)
  qed
  show "voices k (bassLayer rnd e now w) =
           voices k w @ (if \<not> muted w \<and> (dateNow e div 150) mod 8 = 0 \<and> k = Triangle then [nextId w] else [])"
  proof (cases "muted w")
    case True
    then show ?thesis by (simp add: bassLayer_def math_random_def Let_def playBass_muted q)
  next
    case False
    then have "\<not> muted ?w1" by simp
    from playBass_notes(2) [OF f1 this] q show ?thesis
      using False by (simp add: bassLayer_def math_random_def Let_def tempo_def)
  qed
qed

lemma loop_notes:
  assumes f: "idsFresh w" and p: "isPlaying w"
  shows "musicNotes (loop rnd e w) =
           musicNotes w
           @ (if \<not> muted w \<and> 3/10 < frac (rnd (rngCalls w)) then [nextId w] else [])
           @ (if \<not> muted w \<and> (dateNow e div 150) mod 8 = 0
              then [nextId (melodyLayer rnd (currentTime e) w)] else [])"
    and "voices k (loop rnd e w) =
           voices k w
           @ (if \<not> muted w \<and> 3/10 < frac (rnd (rngCalls w)) \<and> k = Sine then [nextId w] else [])
           @ (if \<not> muted w \<and> (dateNow e div 150) mod 8 = 0 \<and> k = Triangle
              then [nextId (melodyLayer rnd (currentTime e) w)] else [])"
proof -
  let ?a = "melodyLayer rnd (currentTime e) w"
  let ?b = "bassLayer rnd e (currentTime e) ?a"
  have fa: "idsFresh ?a" using f melodyLayer_extends [OF f] by (rule extends_idsFresh)
  have s: "musicNotes (scheduleNext ?b) = musicNotes ?b" "voices k (scheduleNext ?b) = voices k ?b"
    by (simp_all add: musicNotes_def voices_def scheduleNext_def)
  show "musicNotes (loop rnd e w) =
           musicNotes w
           @ (if \<not> muted w \<and> 3/10 < frac (rnd (rngCalls w)) then [nextId w] else [])
           @ (if \<not> muted w \<and> (dateNow e div 150) mod 8 = 0
              then [nextId (melodyLayer rnd (currentTime e) w)] else [])"
    unfolding loop_playing [OF p] s bassLayer_notes(1) [OF fa] melodyLayer_notes(1) [OF f]
    by simp
  show "voices k (loop rnd e w) =
           voices k w
           @ (if \<not> muted w \<and> 3/10 < frac (rnd (rngCalls w)) \<and> k = Sine then [nextId w] else [])
           @ (if \<not> muted w \<and> (dateNow e div 150) mod 8 = 0 \<and> k = Triangle
              then [nextId (melodyLayer rnd (currentTime e) w)] else [])"
    unfolding loop_playing [OF p] s bassLayer_notes(2) [OF fa] melodyLayer_notes(2) [OF f]
    by simp
qed

text \<open>
  Claim C6, as the code has it: a tick of the running loop triggers exactly one bass pulse
  when the engine is not muted and \<open>Math.floor(Date.now() / 150) % 8\<close> is 0 at that tick,
  and none otherwise; besides, it triggers one pluck when the engine is not muted and the
  random draw exceeds 0.3. The gate reads the wall clock, not the number of ticks run.
\<close>

theorem bass_gate:
  "idsFresh w \<Longrightarrow> isPlaying w \<Longrightarrow>
   length (basses (loop rnd e w))
     = length (basses w) + (if \<not> muted w \<and> (dateNow e div 150) mod 8 = 0 then 1 else 0) \<and>
   length (plucks (loop rnd e w))
     = length (plucks w) + (if \<not> muted w \<and> 3/10 < frac (rnd (rngCalls w)) then 1 else 0)"
  by (simp add: basses_def plucks_def loop_notes(2))

subsection \<open>Start followed by stop\<close>

lemma stopMusic_notes: "idsFresh w \<Longrightarrow> musicNotes (stopMusic e w) = musicNotes w"
  unfolding extends_musicNotes [OF _ stopMusic_extends]
  by (simp add: stopMusic_def)

lemma fresh_start_notes:
  "musicNotes (startMusic rnd e (construct sr)) =
     (if 3/10 < frac (rnd 0) then [3] else [])
     @ (if (dateNow e div 150) mod 8 = 0
        then [nextId (melodyLayer rnd (currentTime e)
                ((construct sr)\<lparr>isPlaying := True,
                   ops := ops (construct sr) @
                     [Schedule (musicGain (construct sr)) Gain (SetValueAtTime 0 (currentTime e)),
                      Schedule (musicGain (construct sr)) Gain
                        (LinearRampToValueAtTime (1/4) (currentTime e + 2))]\<rparr>))]
        else [])"
proof -
  let ?w1 = "(construct sr)\<lparr>isPlaying := True,
                   ops := ops (construct sr) @
                     [Schedule (musicGain (construct sr)) Gain (SetValueAtTime 0 (currentTime e)),
                      Schedule (musicGain (construct sr)) Gain
                        (LinearRampToValueAtTime (1/4) (currentTime e + 2))]\<rparr>"
  have s: "startMusic rnd e (construct sr) = loop rnd e ?w1"
    by (simp add: startMusic_def Let_def construct_def)
  have f: "idsFresh ?w1" by (simp add: idsFresh_def construct_def destination_def)
  have p: "isPlaying ?w1" by simp
  have n: "musicNotes ?w1 = []" by (simp add: musicNotes_def construct_def)
  have r: "rngCalls ?w1 = 0" "muted ?w1 = False" "nextId ?w1 = 3" by (simp_all add: construct_def)
  show ?thesis unfolding s loop_notes(1) [OF f p] n r by simp
qed

lemma idsFresh_fresh_start: "idsFresh (startMusic rnd e (construct sr))"
  using idsFresh_construct startMusic_extends [OF idsFresh_construct] by (rule extends_idsFresh)

text \<open>
  Claim C3, as the code has it: \<open>startMusic\<close> on a fresh engine runs the first tick
  before it returns, so the notes of \<open>startMusic\<close> followed by \<open>stopMusic\<close> are those
  of that one tick: a pluck when the first random draw exceeds 0.3, and a bass pulse when
  the wall-clock gate is open. \<open>stopMusic\<close> adds none, leaves no timer set and the
  sequencer idle, and its last call ramps the music bus toward 0.
\<close>

theorem start_then_stop:
  "length (musicNotes (stopMusic e' (startMusic rnd e (construct sr))))
     = (if 3/10 < frac (rnd 0) then 1 else 0) + (if (dateNow e div 150) mod 8 = 0 then 1 else 0) \<and>
   musicNotes (stopMusic e' (startMusic rnd e (construct sr)))
     = musicNotes (startMusic rnd e (construct sr)) \<and>
   pending (stopMusic e' (startMusic rnd e (construct sr))) = [] \<and>
   \<not> isPlaying (stopMusic e' (startMusic rnd e (construct sr))) \<and>
   last (ops (stopMusic e' (startMusic rnd e (construct sr))))
     = Schedule (musicGain (construct sr)) Gain (SetTargetAtTime 0 (currentTime e') (1/2))"
proof -
  let ?w = "startMusic rnd e (construct sr)"
  have f: "idsFresh ?w" by (rule idsFresh_fresh_start)
  have ok: "timersOk ?w"
    using timersOk_step [OF timersOk_construct, of rnd e CallStartMusic sr] by simp
  have a: "musicNotes (stopMusic e' ?w) = musicNotes ?w" using f by (rule stopMusic_notes)
  have b: "pending (stopMusic e' ?w) = []" using ok by (rule stop_clears)
  have c: "\<not> isPlaying (stopMusic e' ?w)" by (simp add: stopMusic_def)
  have d: "last (ops (stopMusic e' ?w))
     = Schedule (musicGain (construct sr)) Gain (SetTargetAtTime 0 (currentTime e') (1/2))"
    by (simp add: stopMusic_def)
  have "length (musicNotes ?w)
     = (if 3/10 < frac (rnd 0) then 1 else 0) + (if (dateNow e div 150) mod 8 = 0 then 1 else 0)"
    unfolding fresh_start_notes by simp
  with a b c d show ?thesis by simp
qed

lemma eval_defs:
  "construct sr =
     \<lparr>ops = [CreateGain 1, Connect 1 0, SetParamValue 1 Gain (2/5),
             CreateGain 2, Connect 2 0, SetParamValue 2 Gain 0],
      nextId = 3, sampleRate = sr,
      masterGain = 1, musicGain = 2,
      muted = False, isPlaying = False, timerIDs = [],
      pending = [], nextTimer = 1, rngCalls = 0\<rparr>"
  "at_ms ms = \<lparr>currentTime = of_int ms / 1000, dateNow = ms\<rparr>"
  by (simp_all add: construct_def at_ms_def destination_def)

text \<open>
  Claim C3 as stated fails: with a random draw of 0.5 and \<open>Date.now()\<close> at 0, a fresh
  engine that is started and stopped at once has triggered two notes.
\<close>

theorem start_then_stop_counterexample:
  "length (musicNotes (stopMusic (at_ms 10) (startMusic (steady (1/2)) (at_ms 0) (construct 44100)))) = 2"
proof -
  have "musicNotes (stopMusic (at_ms 10) (startMusic (steady (1/2)) (at_ms 0) (construct 44100)))
          = musicNotes (startMusic (steady (1/2)) (at_ms 0) (construct 44100))"
    using idsFresh_fresh_start by (rule stopMusic_notes)
  then show ?thesis
    unfolding fresh_start_notes by (simp add: steady_def frac_unit at_ms_def)
qed

text \<open>
  Claim C6 as stated fails. A fresh engine is started at \<open>Date.now() = 1050\<close>: its first
  tick triggers no bass pulse. The second tick, at 1200, triggers one. When the engine is
  muted before that second tick, it triggers none, though 1200 div 150 is a multiple of 8.
\<close>

theorem bass_gate_counterexample:
  "length (basses (exec (steady 0) [(at_ms 1050, CallStartMusic)] (construct 44100))) = 0 \<and>
   length (basses (exec (steady 0) [(at_ms 1050, CallStartMusic), (at_ms 1200, TimerFires)]
                    (construct 44100))) = 1 \<and>
   length (basses (exec (steady 0)
                    [(at_ms 1050, CallStartMusic), (at_ms 1100, CallToggleMute), (at_ms 1200, TimerFires)]
                    (construct 44100))) = 0"
  by (simp add: basses_def voices_def musicNotes_def startMusic_def loop_def toggleMute_def
      scheduleNext_def bassLayer_def melodyLayer_def math_random_def playPluck_def playBass_def
      eval_defs steady_def tempo_def Let_def path_numeral)

subsection \<open>The routing of the buses\<close>

lemma busesOk_construct: "busesOk (construct sr)"
  by (simp add: busesOk_def idsFresh_construct) (simp add: construct_def destination_def)

lemma extends_busesOk: "busesOk w \<Longrightarrow> extends w w' \<Longrightarrow> busesOk w'"
proof -
  assume b: "busesOk w" and x: "extends w w'"
  have f: "idsFresh w" using b by (simp add: busesOk_def)
  have lt: "musicGain w < nextId w" "masterGain w < nextId w" "destination < nextId w"
    using f by (simp_all add: idsFresh_def destination_def)
  have "idsFresh w'" using f x by (rule extends_idsFresh)
  moreover have "targets (ops w') (musicGain w) = targets (ops w) (musicGain w)"
    using f x lt(1) by (rule extends_targets)
  moreover have "targets (ops w') (masterGain w) = targets (ops w) (masterGain w)"
    using f x lt(2) by (rule extends_targets)
  moreover have "targets (ops w') destination = targets (ops w) destination"
    using f x lt(3) by (rule extends_targets)
  ultimately show ?thesis using b extendsD(2,3) [OF x] by (auto simp add: busesOk_def)
qed

lemma busesOk_reachable: "busesOk (exec rnd evs (construct sr))"
  using busesOk_construct exec_extends [OF idsFresh_construct] by (rule extends_busesOk)

lemma sink_no_path: "targets os d = [] \<Longrightarrow> d \<noteq> m \<Longrightarrow> \<not> path os avoid k d m"
  by (cases k) simp_all

lemma path_bypass:
  assumes "targets os a = [d]" "targets os d = []" "d \<noteq> m" "a \<noteq> m"
  shows "path os [] k n m \<Longrightarrow> path os [a] k n m"
proof (induction k arbitrary: n)
  case 0
  then show ?case using assms by simp
next
  case (Suc k)
  have na: "n \<noteq> a"
  proof
    assume "n = a"
    with Suc.prems assms have "path os [] k d m" by simp
    with assms show False using sink_no_path by blast
  qed
  show ?case
  proof (cases "n = m")
    case True
    then show ?thesis using na by simp
  next
    case False
    with Suc.prems obtain x where "x \<in> set (targets os n)" "path os [] k x m"
      by (auto simp add: list_ex_iff)
    then show ?thesis using Suc.IH na by (auto simp add: list_ex_iff)
  qed
qed

lemma path_onward:
  "path os avoid k n m \<Longrightarrow> y \<in> set (targets os m) \<Longrightarrow> y \<notin> set avoid \<Longrightarrow>
   path os avoid (Suc k) n y"
proof (induction k arbitrary: n)
  case 0
  then show ?case by (auto simp add: list_ex_iff)
next
  case (Suc k)
  show ?case
  proof (cases "n = m")
    case True
    then show ?thesis using Suc.prems by (auto simp add: list_ex_iff)
  next
    case False
    with Suc.prems obtain x where x: "x \<in> set (targets os n)" "path os avoid k x m"
      by (auto simp add: list_ex_iff)
    have "path os avoid (Suc k) x y" using x(2) Suc.prems(2,3) by (rule Suc.IH)
    then show ?thesis using Suc.prems(1) x(1) by (auto simp add: list_ex_iff)
  qed
qed

lemma connect_in_targets: "Connect a b \<in> set os \<Longrightarrow> b \<in> set (targets os a)"
  by (induction os) auto

text \<open>
  Claim C2, as the code has it: in every world the engine can reach, the music bus and the
  master bus are each connected to the destination and to nothing else, so the music bus is
  not a child of the master bus; and every note of the sequencer reaches the destination on
  a path that does not pass through the master bus, whose gain therefore does not apply
  to it.
\<close>

theorem buses_in_parallel:
  "targets (ops (exec rnd evs (construct sr))) (musicGain (exec rnd evs (construct sr)))
     = [destination] \<and>
   targets (ops (exec rnd evs (construct sr))) (masterGain (exec rnd evs (construct sr)))
     = [destination] \<and>
   Connect (musicGain (exec rnd evs (construct sr))) (masterGain (exec rnd evs (construct sr)))
     \<notin> set (ops (exec rnd evs (construct sr))) \<and>
   (\<forall>n \<in> set (musicNotes (exec rnd evs (construct sr))).
      path (ops (exec rnd evs (construct sr))) [masterGain (exec rnd evs (construct sr))] 4 n
        destination)"
proof -
  let ?w = "exec rnd evs (construct sr)"
  have b: "busesOk ?w" by (rule busesOk_reachable)
  then have t: "targets (ops ?w) (musicGain ?w) = [destination]"
    "targets (ops ?w) (masterGain ?w) = [destination]" "targets (ops ?w) destination = []"
    and g: "musicGain ?w \<noteq> masterGain ?w" "musicGain ?w \<noteq> destination"
      "masterGain ?w \<noteq> destination"
    by (auto simp add: busesOk_def)
  have nc: "Connect (musicGain ?w) (masterGain ?w) \<notin> set (ops ?w)"
    using connect_in_targets [of "musicGain ?w" "masterGain ?w" "ops ?w"] t(1) g
    by auto
  have "path (ops ?w) [masterGain ?w] 4 n destination" if n: "n \<in> set (musicNotes ?w)" for n
  proof -
    from n have "path (ops ?w) [] 3 n (musicGain ?w)" by (simp add: musicNotes_def)
    then have "path (ops ?w) [masterGain ?w] 3 n (musicGain ?w)"
      using t g by (intro path_bypass [where d = destination]) auto
    then have "path (ops ?w) [masterGain ?w] (Suc 3) n destination"
      using t g by (intro path_onward [where m = "musicGain ?w"]) auto
    then show ?thesis by simp
  qed
  with t nc show ?thesis by blast
qed

lemma plucks_fresh_start:
  "plucks (startMusic (steady (1/2)) (at_ms 0) (construct 44100)) = [3]"
  by (simp add: plucks_def voices_def musicNotes_def startMusic_def loop_def
      scheduleNext_def bassLayer_def melodyLayer_def math_random_def playPluck_def playBass_def
      eval_defs steady_def tempo_def Let_def path_numeral frac_unit)

text \<open>
  The pluck of the first tick of a fresh engine is such a note.
\<close>

theorem buses_in_parallel_witness:
  "3 \<in> set (musicNotes (exec (steady (1/2)) [(at_ms 0, CallStartMusic)] (construct 44100))) \<and>
   path (ops (exec (steady (1/2)) [(at_ms 0, CallStartMusic)] (construct 44100)))
     [masterGain (exec (steady (1/2)) [(at_ms 0, CallStartMusic)] (construct 44100))] 4 3 destination"
proof -
  have "3 \<in> set (plucks (startMusic (steady (1/2)) (at_ms 0) (construct 44100)))"
    by (simp add: plucks_fresh_start)
  then have m: "3 \<in> set (musicNotes (exec (steady (1/2)) [(at_ms 0, CallStartMusic)] (construct 44100)))"
    by (simp add: plucks_def voices_def)
  with buses_in_parallel [of "steady (1/2)" "[(at_ms 0, CallStartMusic)]" 44100]
  show ?thesis by blast
qed

text \<open>
  Claim C2 as stated fails: the constructor connects the music bus to the destination and
  not to the master bus, and the pluck of the first tick reaches the destination without
  passing through the master bus.
\<close>

theorem music_child_of_master_counterexample:
  "Connect (musicGain (construct 44100)) (masterGain (construct 44100)) \<notin> set (ops (construct 44100)) \<and>
   Connect (musicGain (construct 44100)) destination \<in> set (ops (construct 44100)) \<and>
   3 \<in> set (plucks (startMusic (steady (1/2)) (at_ms 0) (construct 44100))) \<and>
   path (ops (startMusic (steady (1/2)) (at_ms 0) (construct 44100)))
     [masterGain (startMusic (steady (1/2)) (at_ms 0) (construct 44100))] 4 3 destination"
  by (simp add: plucks_fresh_start)
    (simp add: startMusic_def loop_def
      scheduleNext_def bassLayer_def melodyLayer_def math_random_def playPluck_def playBass_def
      eval_defs steady_def tempo_def Let_def path_numeral frac_unit destination_def)

subsection \<open>The ramp toward 0.25\<close>

lemma targetCurve_bounds:
  assumes v: "v0 \<le> of_rat target" and tau: "0 < tau" and le: "t1 \<le> t2"
  shows "v0 \<le> targetCurve v0 target t0 tau t1"
    and "targetCurve v0 target t0 tau t1 \<le> targetCurve v0 target t0 tau t2"
    and "targetCurve v0 target t0 tau t2 \<le> of_rat target"
proof -
  have tau': "0 < (of_rat tau :: real)" using tau by simp
  have d: "v0 - of_rat target \<le> 0" using v by simp
  have up: "targetCurve v0 target t0 tau t \<le> of_rat target" for t
  proof (cases "t < of_rat t0")
    case True
    then show ?thesis using v by (simp add: targetCurve_def)
  next
    case False
    have "(v0 - of_rat target) * exp (- (t - of_rat t0) / of_rat tau) \<le> 0"
      using d by (simp add: mult_le_0_iff)
    then show ?thesis using False by (simp add: targetCurve_def)
  qed
  have lo: "v0 \<le> targetCurve v0 target t0 tau t" for t
  proof (cases "t < of_rat t0")
    case True
    then show ?thesis by (simp add: targetCurve_def)
  next
    case False
    then have "- (t - of_rat t0) / of_rat tau \<le> 0"
      using tau' by (simp add: divide_nonpos_pos)
    then have "exp (- (t - of_rat t0) / of_rat tau) \<le> (1::real)" by simp
    then have "(v0 - of_rat target) * 1 \<le> (v0 - of_rat target) * exp (- (t - of_rat t0) / of_rat tau)"
      using d by (rule mult_left_mono_neg)
    then show ?thesis using False by (simp add: targetCurve_def)
  qed
  show "v0 \<le> targetCurve v0 target t0 tau t1" by (rule lo)
  show "targetCurve v0 target t0 tau t2 \<le> of_rat target" by (rule up)
  show "targetCurve v0 target t0 tau t1 \<le> targetCurve v0 target t0 tau t2"
  proof (cases "t1 < of_rat t0")
    case True
    then have "targetCurve v0 target t0 tau t1 = v0" by (simp add: targetCurve_def)
    then show ?thesis using lo [of t2] by simp
  next
    case False
    then have t2: "\<not> t2 < of_rat t0" using le by simp
    have "- (t2 - of_rat t0) / of_rat tau \<le> - (t1 - of_rat t0) / of_rat tau"
      using le tau' by (simp add: divide_right_mono)
    then have "exp (- (t2 - of_rat t0) / of_rat tau) \<le> exp (- (t1 - of_rat t0) / (of_rat tau :: real))"
      by simp
    then have "(v0 - of_rat target) * exp (- (t1 - of_rat t0) / of_rat tau)
                 \<le> (v0 - of_rat target) * exp (- (t2 - of_rat t0) / of_rat tau)"
      using d by (rule mult_left_mono_neg)
    then show ?thesis using False t2 by (simp add: targetCurve_def)
  qed
qed

lemma targetCurve_limit:
  assumes tau: "0 < tau"
  shows "((\<lambda>t. targetCurve v0 target t0 tau t) \<longlongrightarrow> of_rat target) at_top"
proof -
  have tau': "0 < (of_rat tau :: real)" using tau by simp
  have eq: "- (t - of_rat t0) / of_rat tau = - (1 / of_rat tau * (- of_rat t0 + t))" for t :: real
    by (simp add: algebra_simps diff_divide_distrib)
  have a: "LIM t at_top. - of_rat t0 + (t::real) :> at_top"
    by (rule filterlim_tendsto_add_at_top [OF tendsto_const filterlim_ident])
  have b: "LIM t at_top. 1 / of_rat tau * (- of_rat t0 + (t::real)) :> at_top"
    using tau' by (intro filterlim_tendsto_pos_mult_at_top [OF tendsto_const _ a]) simp
  then have "LIM t at_top. - (1 / of_rat tau * (- of_rat t0 + (t::real))) :> at_bot"
    by (simp add: filterlim_uminus_at_top)
  then have "((\<lambda>t::real. exp (- (1 / of_rat tau * (- of_rat t0 + t)))) \<longlongrightarrow> 0) at_top"
    by (rule filterlim_compose [OF exp_at_bot])
  then have e: "((\<lambda>t::real. exp (- (t - of_rat t0) / of_rat tau)) \<longlongrightarrow> 0) at_top"
    unfolding eq .
  have "((\<lambda>t::real. of_rat target + (v0 - of_rat target) * exp (- (t - of_rat t0) / of_rat tau))
               \<longlongrightarrow> of_rat target + (v0 - of_rat target) * 0) at_top"
    by (intro tendsto_add tendsto_mult tendsto_const e)
  then have lim: "((\<lambda>t::real. of_rat target + (v0 - of_rat target) * exp (- (t - of_rat t0) / of_rat tau))
               \<longlongrightarrow> of_rat target) at_top"
    by simp
  have "eventually (\<lambda>t. of_rat target + (v0 - of_rat target) * exp (- (t - of_rat t0) / of_rat tau)
                         = targetCurve v0 target t0 tau t) at_top"
    using eventually_ge_at_top [of "of_rat t0 :: real"]
    by eventually_elim (simp add: targetCurve_def)
  then show ?thesis using lim by (rule Lim_transform_eventually [rotated])
qed

text \<open>
  Claim C9: the ramp that \<open>toggleMute\<close> issues on the music bus when unmuting is
  \<open>setTargetAtTime(0.25, now, 1.0)\<close>; along its curve, from a level of at most 0.25, the
  gain never falls below its starting level, never decreases, never exceeds 0.25, and tends
  to 0.25 as time goes on.
\<close>

theorem unmute_ramp_approach:
  "muted w \<Longrightarrow> v0 \<le> 1/4 \<Longrightarrow> t1 \<le> t2 \<Longrightarrow>
   last (ops (snd (toggleMute rnd e w)))
     = Schedule (musicGain w) Gain (SetTargetAtTime (1/4) (currentTime e) 1) \<and>
   v0 \<le> targetCurve v0 (1/4) (currentTime e) 1 t1 \<and>
   targetCurve v0 (1/4) (currentTime e) 1 t1 \<le> targetCurve v0 (1/4) (currentTime e) 1 t2 \<and>
   targetCurve v0 (1/4) (currentTime e) 1 t2 \<le> 1/4 \<and>
   ((\<lambda>t. targetCurve v0 (1/4) (currentTime e) 1 t) \<longlongrightarrow> 1/4) at_top"
proof -
  assume m: "muted w" and v: "v0 \<le> 1/4" and le: "t1 \<le> t2"
  have q: "(of_rat (1/4) :: real) = 1/4" by (simp add: of_rat_divide)
  have v': "v0 \<le> of_rat (1/4)" using v q by simp
  have one: "(0::rat) < 1" by simp
  note b = targetCurve_bounds [OF v' one le, of "currentTime e", unfolded q]
  note l = targetCurve_limit [OF one, of v0 "1/4" "currentTime e", unfolded q]
  have "last (ops (snd (toggleMute rnd e w)))
     = Schedule (musicGain w) Gain (SetTargetAtTime (1/4) (currentTime e) 1)"
    using m by (simp add: toggleMute_def Let_def)
  with b l show ?thesis by blast
qed

text \<open>
  From level 0, with the ramp issued at 0.5 s: the levels at 0 s and at 1 s.
\<close>

theorem unmute_ramp_approach_witness:
  "muted (snd (toggleMute (steady (1/2)) (at_ms 0) (construct 44100))) \<and> (0::real) \<le> 1/4 \<and>
   (0::real) \<le> 1 \<and>
   targetCurve 0 (1/4) (currentTime (at_ms 500)) 1 0 \<le> targetCurve 0 (1/4) (currentTime (at_ms 500)) 1 1 \<and>
   targetCurve 0 (1/4) (currentTime (at_ms 500)) 1 1 \<le> 1/4"
proof -
  have h1: "muted (snd (toggleMute (steady (1/2)) (at_ms 0) (construct 44100)))"
    by (simp add: toggleMute_muted construct_def)
  have h2: "(0::real) \<le> 1/4" by simp
  have h3: "(0::real) \<le> 1" by simp
  from unmute_ramp_approach [OF h1 h2 h3, of "steady (1/2)" "at_ms 500"] h1 h2 h3
  show ?thesis by blast
qed

text \<open>
  The second tick of a fresh engine started at \<open>Date.now() = 1050\<close>, at 1200.
\<close>

theorem bass_gate_witness:
  "idsFresh (startMusic (steady 0) (at_ms 1050) (construct 44100)) \<and>
   isPlaying (startMusic (steady 0) (at_ms 1050) (construct 44100)) \<and>
   length (basses (loop (steady 0) (at_ms 1200) (startMusic (steady 0) (at_ms 1050) (construct 44100))))
     = length (basses (startMusic (steady 0) (at_ms 1050) (construct 44100))) + 1"
proof -
  have h1: "idsFresh (startMusic (steady 0) (at_ms 1050) (construct 44100))"
    by (rule idsFresh_fresh_start)
  have h2: "isPlaying (startMusic (steady 0) (at_ms 1050) (construct 44100))" by simp
  have h3: "\<not> muted (startMusic (steady 0) (at_ms 1050) (construct 44100))"
    by (simp add: construct_def)
  have h4: "(dateNow (at_ms 1200) div 150) mod 8 = 0" by (simp add: at_ms_def)
  from bass_gate [OF h1 h2, of "steady 0" "at_ms 1200"] h3 h4
  have "length (basses (loop (steady 0) (at_ms 1200) (startMusic (steady 0) (at_ms 1050) (construct 44100))))
     = length (basses (startMusic (steady 0) (at_ms 1050) (construct 44100))) + 1"
    by simp
  with h1 h2 show ?thesis by blast
qed

text \<open>
  With a random draw of 0.1 and \<open>Date.now()\<close> at 150 no note is triggered.
\<close>

theorem start_then_stop_witness:
  "length (musicNotes (stopMusic (at_ms 100) (startMusic (steady (1/10)) (at_ms 150) (construct 44100)))) = 0 \<and>
   pending (stopMusic (at_ms 100) (startMusic (steady (1/10)) (at_ms 150) (construct 44100))) = []"
  using start_then_stop [of "at_ms 100" "steady (1/10)" "at_ms 150" 44100]
  by (simp add: steady_def frac_unit at_ms_def)

end
